(* ===== verification/Prelude.thy ===== *)
theory Prelude
  imports Main "HOL-Library.Word"
begin

text \<open>
  Shared vocabulary of the development: the machine types of the Go program
  (\<open>uint64\<close> as \<open>64 word\<close>, Go strings as byte lists), the error and panic values
  that the Go code returns or raises, the byte classes that the code tests
  (\<open>'0' <= c && c <= '9'\<close>), the small string functions of Go's standard library
  that several components use (\<open>strings.Cut\<close>, \<open>strings.HasPrefix\<close>), and generic
  lemmas on lists and sums that the component proofs share.
\<close>

named_theorems go_defs
  "definitions of the Go model that the witnesses unfold to evaluate a concrete run"

type_synonym u64 = "64 word"

text \<open>
  A Go \<open>string\<close> is a sequence of bytes; Isabelle's \<open>char\<close> is a byte, so \<open>string\<close>
  is the same type. Multi-byte UTF-8 characters such as the euro sign are several
  \<open>char\<close>s, as they are several bytes of the Go string.
\<close>

subsection \<open>Errors and panics\<close>

text \<open>\<open>strconv.NumError.Err\<close>: the two sentinel errors of \<open>strconv\<close>.\<close>

datatype num_err = ErrSyntax | ErrRange

text \<open>The reasons for which \<open>net/url.Parse\<close> fails: a control byte, a missing scheme
  before a colon, a colon in the first segment of a relative path, a bad escape
  (\<open>EscapeError\<close>), a byte not allowed in a host (\<open>InvalidHostError\<close>), a missing
  \<open>]\<close> after an IPv6 literal, a non-numeric port, a bad userinfo.\<close>

datatype url_err =
    InvalidControlChar
  | MissingProtocolScheme
  | ColonInFirstSegment
  | InvalidEscape string
  | InvalidHostChar string
  | MissingBracket
  | InvalidPort string
  | InvalidUserinfo

text \<open>
  Every \<open>error\<close> value that the modelled code creates or propagates:
  \<^item> \<open>NumError func num err\<close> is \<open>*strconv.NumError\<close>;
  \<^item> \<open>PriceFormat s\<close> is \<open>fmt.Errorf("invalid format or no valid price found %s", s)\<close>
    of \<open>extractFirstCurrency\<close>;
  \<^item> \<open>UrlError op url e\<close> is \<open>*url.Error\<close>;
  \<^item> \<open>DriverError what\<close> is an error returned by the selenium WebDriver or WebElement
    (opaque to this program: it only propagates it);
  \<^item> \<open>WaitTimeout ms\<close> is \<open>fmt.Errorf("element not found or not visible after %v", timeout)\<close>
    of \<open>waitForElement\<close>.
\<close>

datatype error =
    NumError string string num_err
  | PriceFormat string
  | UrlError string string url_err
  | DriverError string
  | WaitTimeout nat

text \<open>Run-time panics of the Go program; a panic in a goroutine ends the process.\<close>

datatype panic = NilPointerDereference | CloseOfClosedChannel | SendOnClosedChannel

subsection \<open>Bytes\<close>

definition is_digit :: "char \<Rightarrow> bool" where
  "is_digit c \<longleftrightarrow> 48 \<le> (of_char c :: nat) \<and> (of_char c :: nat) \<le> 57"

definition digit_val :: "char \<Rightarrow> nat" where
  "digit_val c = of_char c - 48"

definition is_alpha :: "char \<Rightarrow> bool" where
  "is_alpha c \<longleftrightarrow> (97 \<le> (of_char c :: nat) \<and> (of_char c :: nat) \<le> 122)
                 \<or> (65 \<le> (of_char c :: nat) \<and> (of_char c :: nat) \<le> 90)"

definition is_ctl :: "char \<Rightarrow> bool" where
  "is_ctl c \<longleftrightarrow> (of_char c :: nat) < 32 \<or> (of_char c :: nat) = 127"

definition is_hex :: "char \<Rightarrow> bool" where
  "is_hex c \<longleftrightarrow> is_digit c \<or> (97 \<le> (of_char c :: nat) \<and> (of_char c :: nat) \<le> 102)
                 \<or> (65 \<le> (of_char c :: nat) \<and> (of_char c :: nat) \<le> 70)"

definition hex_val :: "char \<Rightarrow> nat" where
  "hex_val c = (if is_digit c then of_char c - 48
                else if (97::nat) \<le> of_char c then of_char c - 87 else of_char c - 55)"

declare is_digit_def [go_defs] digit_val_def [go_defs] is_alpha_def [go_defs]
  is_ctl_def [go_defs] is_hex_def [go_defs] hex_val_def [go_defs]

lemma digit_val_lt: "is_digit c \<Longrightarrow> digit_val c < 10"
  unfolding is_digit_def digit_val_def by linarith

lemma digit_not_comma [simp]: "\<not> is_digit CHR '',''"
  by (simp add: is_digit_def)

lemma digit_not_hash [simp]: "\<not> is_digit CHR ''#''" and digit_not_qmark [simp]: "\<not> is_digit CHR ''?''"
  by (simp_all add: is_digit_def)

subsection \<open>Go string functions\<close>

text \<open>
  \<open>strings.Cut(s, sep)\<close> for a one-byte separator: the text before the first
  occurrence and, when there is one, the text after it (\<open>None\<close> is \<open>found == false\<close>,
  where Go returns \<open>s, "", false\<close>).
\<close>

fun str_cut :: "char \<Rightarrow> string \<Rightarrow> string \<times> string option" where
  "str_cut sep [] = ([], None)"
| "str_cut sep (c # cs) =
     (if c = sep then ([], Some cs)
      else (case str_cut sep cs of (b, a) \<Rightarrow> (c # b, a)))"

lemma str_cut_None: "sep \<notin> set s \<Longrightarrow> str_cut sep s = (s, None)"
  by (induction s) auto

lemma str_cut_append: "sep \<notin> set b \<Longrightarrow> str_cut sep (b @ sep # a) = (b, Some a)"
  by (induction b) auto

lemma str_cut_fst_notin: "sep \<notin> set (fst (str_cut sep s))"
  by (induction s) (auto split: prod.splits)

subsection \<open>Shared list and sum lemmas\<close>

lemma sum_case_Inr_eq:
  "(case x of Inl e \<Rightarrow> Inl e | Inr v \<Rightarrow> Inr (f v)) = Inr r \<longleftrightarrow> (\<exists>v. x = Inr v \<and> r = f v)"
  by (cases x) auto

lemma sum_case_Inl_eq:
  "(case x of Inl e \<Rightarrow> Inl e | Inr v \<Rightarrow> g v) = Inl e' \<longleftrightarrow>
     (x = Inl e' \<or> (\<exists>v. x = Inr v \<and> g v = Inl e'))"
  by (cases x) auto

end
