(* ===== verification/Strconv.thy ===== *)
theory Strconv
  imports Prelude
begin

text \<open>
  Go's \<open>strconv.ParseUint(s, 10, 64)\<close>, which \<open>extractFirstCurrency\<close> calls on the
  digit run of a price. The loop is the library's own: it accumulates the value in a
  \<open>uint64\<close> and detects overflow with the cutoff test before the multiplication and
  the wrap-around test \<open>n1 < n\<close> after the addition. The theory proves that this
  loop computes the decimal value of an all-digit string exactly when it is below
  \<open>2^64\<close> and a range error otherwise.
\<close>

definition max_uint64 :: u64 where
  "max_uint64 = - 1"

definition cutoff10 :: u64 where
  "cutoff10 = max_uint64 div 10 + 1"

definition max_val64 :: u64 where
  "max_val64 = push_bit 64 1 - 1"

declare max_uint64_def [go_defs] cutoff10_def [go_defs] max_val64_def [go_defs]

fun parse_uint_loop :: "string \<Rightarrow> string \<Rightarrow> u64 \<Rightarrow> error + u64" where
  "parse_uint_loop s0 [] n = Inr n"
| "parse_uint_loop s0 (c # cs) n =
     (if \<not> is_digit c then Inl (NumError ''ParseUint'' s0 ErrSyntax)
      else if cutoff10 \<le> n then Inl (NumError ''ParseUint'' s0 ErrRange)
      else (let n' = n * 10; n1 = n' + word_of_nat (digit_val c)
            in if n1 < n' \<or> max_val64 < n1 then Inl (NumError ''ParseUint'' s0 ErrRange)
               else parse_uint_loop s0 cs n1))"

definition parse_uint :: "string \<Rightarrow> error + u64" where
  "parse_uint s =
     (if s = [] then Inl (NumError ''ParseUint'' s ErrSyntax) else parse_uint_loop s s 0)"

declare parse_uint_def [go_defs]

text \<open>The reference: the decimal value of a digit string.\<close>

definition decimal_step :: "nat \<Rightarrow> char \<Rightarrow> nat" where
  "decimal_step n c = 10 * n + digit_val c"

definition decimal_value :: "string \<Rightarrow> nat" where
  "decimal_value s = foldl decimal_step 0 s"

text \<open>
  \<open>strconv.FormatUint(u, 10)\<close>, the printer that inverts \<open>ParseUint\<close>: the library's
  \<open>formatBits\<close> fills a buffer from the right with the digits of \<open>u\<close> (two at a time
  from a table of pairs, the same characters as one at a time by \<open>u mod 10\<close>) until
  the quotient is a single digit.
\<close>

definition digit_char :: "nat \<Rightarrow> char" where
  "digit_char d = char_of (48 + d)"

function format_bits :: "u64 \<Rightarrow> string \<Rightarrow> string" where
  "format_bits u a =
     (if u < 10 then digit_char (unat u) # a
      else format_bits (u div 10) (digit_char (unat (u mod 10)) # a))"
  by pat_completeness auto
termination
proof (relation "measure (\<lambda>(u, a). unat u)")
  fix u :: u64 and a :: string
  assume "\<not> u < 10"
  then have "10 \<le> unat u" by (simp add: word_less_nat_alt not_less)
  then show "((u div 10, digit_char (unat (u mod 10)) # a), u, a) \<in> measure (\<lambda>(u, a). unat u)"
    by (simp add: unat_div)
qed simp

definition format_uint :: "u64 \<Rightarrow> string" where
  "format_uint u = format_bits u []"

declare format_bits.simps [simp del]

subsection \<open>The loop against the reference\<close>

lemma foldl_decimal_step_ge: "v \<le> foldl decimal_step v cs"
proof (induction cs arbitrary: v)
  case Nil
  then show ?case by simp
next
  case (Cons c cs)
  have "v \<le> decimal_step v c" by (simp add: decimal_step_def)
  also have "\<dots> \<le> foldl decimal_step (decimal_step v c) cs" by (rule Cons.IH)
  finally show ?case by simp
qed

lemma cutoff10_val: "unat cutoff10 = 1844674407370955162"
  by (simp add: cutoff10_def max_uint64_def)

lemma max_val64_max: "\<not> max_val64 < w"
proof -
  have "max_val64 = - 1" by (simp add: max_val64_def)
  then show ?thesis using max_word_max [of w] by (simp add: not_less)
qed

lemma unat_u64_of_nat: "a < 2 ^ 64 \<Longrightarrow> unat (word_of_nat a :: u64) = a"
proof -
  assume "a < 2 ^ 64"
  have "unat (word_of_nat a :: u64) = a mod 2 ^ LENGTH(64)" by (rule unat_of_nat)
  also have "\<dots> = a" using \<open>a < 2 ^ 64\<close> by simp
  finally show ?thesis .
qed

lemma unat_u64_of_nat_wrap:
  "2 ^ 64 \<le> a \<Longrightarrow> a < 2 ^ 65 \<Longrightarrow> unat (word_of_nat a :: u64) = a - 2 ^ 64"
proof -
  assume "2 ^ 64 \<le> a" "a < 2 ^ 65"
  have "unat (word_of_nat a :: u64) = a mod 2 ^ LENGTH(64)" by (rule unat_of_nat)
  also have "\<dots> = a - 2 ^ 64" using \<open>2 ^ 64 \<le> a\<close> \<open>a < 2 ^ 65\<close> by (simp add: mod_if)
  finally show ?thesis .
qed

text \<open>
  One iteration of the loop below the cutoff: the multiplication cannot wrap, and the
  addition wraps exactly when the decimal value reaches \<open>2^64\<close>.
\<close>

lemma parse_uint_loop_step:
  assumes dig: "is_digit c" and below: "v < 1844674407370955162"
  shows "parse_uint_loop s0 (c # cs) (word_of_nat v) =
           (if 2 ^ 64 \<le> decimal_step v c then Inl (NumError ''ParseUint'' s0 ErrRange)
            else parse_uint_loop s0 cs (word_of_nat (decimal_step v c)))"
proof -
  have unat_v: "unat (word_of_nat v :: u64) = v" using below by (simp add: unat_u64_of_nat)
  have nocut: "(cutoff10 \<le> (word_of_nat v :: u64)) = False"
    using below unat_v by (simp add: word_le_nat_alt cutoff10_val)
  have mul: "(word_of_nat v :: u64) * 10 = word_of_nat (10 * v)" by simp
  have sum: "word_of_nat (10 * v) + word_of_nat (digit_val c) = (word_of_nat (decimal_step v c) :: u64)"
    by (simp add: decimal_step_def)
  have unat_mul: "unat (word_of_nat (10 * v) :: u64) = 10 * v"
    by (rule unat_u64_of_nat) (use below in simp)
  have d10: "digit_val c < 10" using dig by (rule digit_val_lt)
  have wrap: "((word_of_nat (decimal_step v c) :: u64) < word_of_nat (10 * v)) = (2 ^ 64 \<le> decimal_step v c)"
  proof (cases "2 ^ 64 \<le> decimal_step v c")
    case True
    have "decimal_step v c < 2 ^ 65" using below d10 by (simp add: decimal_step_def)
    with True have "unat (word_of_nat (decimal_step v c) :: u64) = decimal_step v c - 2 ^ 64"
      by (rule unat_u64_of_nat_wrap)
    with True unat_mul d10 below show ?thesis by (simp add: word_less_nat_alt decimal_step_def)
  next
    case False
    then have "unat (word_of_nat (decimal_step v c) :: u64) = decimal_step v c"
      by (simp add: unat_u64_of_nat)
    with False unat_mul show ?thesis by (simp add: word_less_nat_alt decimal_step_def)
  qed
  show ?thesis
    by (simp only: parse_uint_loop.simps Let_def mul sum dig nocut wrap max_val64_max
          if_False simp_thms)
qed

lemma parse_uint_loop_digits:
  assumes "list_all is_digit cs" and "v < 2 ^ 64"
  shows "parse_uint_loop s0 cs (word_of_nat v) =
           (if foldl decimal_step v cs < 2 ^ 64
            then Inr (word_of_nat (foldl decimal_step v cs))
            else Inl (NumError ''ParseUint'' s0 ErrRange))"
  using assms
proof (induction cs arbitrary: v)
  case Nil
  then show ?case by simp
next
  case (Cons c cs)
  have dig: "is_digit c" and digs: "list_all is_digit cs" using Cons.prems by auto
  have unat_v: "unat (word_of_nat v :: u64) = v" using Cons.prems(2) by (simp add: unat_u64_of_nat)
  have ge: "decimal_step v c \<le> foldl decimal_step (decimal_step v c) cs"
    by (rule foldl_decimal_step_ge)
  show ?case
  proof (cases "v < 1844674407370955162")
    case False
    then have "cutoff10 \<le> (word_of_nat v :: u64)" using unat_v by (simp add: word_le_nat_alt cutoff10_val)
    moreover have "2 ^ 64 \<le> decimal_step v c" using False by (simp add: decimal_step_def)
    ultimately show ?thesis using ge dig by simp
  next
    case True
    show ?thesis
    proof (cases "2 ^ 64 \<le> decimal_step v c")
      case ovf: True
      then show ?thesis using ge by (simp only: parse_uint_loop_step [OF dig True]) simp
    next
      case False
      then have "decimal_step v c < 2 ^ 64" by simp
      from Cons.IH [OF digs this] False show ?thesis
        by (simp only: parse_uint_loop_step [OF dig True]) simp
    qed
  qed
qed

subsection \<open>ParseUint against the reference\<close>

lemma parse_uint_loop_Inr_digits:
  "parse_uint_loop s0 cs n = Inr v \<Longrightarrow> list_all is_digit cs"
  by (induction s0 cs n rule: parse_uint_loop.induct) (auto simp: Let_def split: if_splits)

text \<open>
  On a non-empty string of decimal digits, the library loop returns the decimal value
  when it fits in 64 bits and a range error otherwise; the cutoff test and the
  wrap-around test of the Go code never disagree with this arithmetic reading.
\<close>

lemma parse_uint_digits:
  assumes "s \<noteq> []" and "list_all is_digit s"
  shows "parse_uint s =
           (if decimal_value s < 2 ^ 64 then Inr (word_of_nat (decimal_value s))
            else Inl (NumError ''ParseUint'' s ErrRange))"
  using assms parse_uint_loop_digits [of s 0 s]
  by (simp add: parse_uint_def decimal_value_def)

text \<open>Every successful parse is of a non-empty digit string, and reads its decimal value.\<close>

lemma parse_uint_Inr:
  assumes "parse_uint s = Inr v"
  shows "s \<noteq> [] \<and> list_all is_digit s \<and> decimal_value s < 2 ^ 64 \<and> unat v = decimal_value s"
proof -
  have ne: "s \<noteq> []" using assms by (auto simp: parse_uint_def)
  then have "parse_uint_loop s s 0 = Inr v" using assms by (simp add: parse_uint_def)
  then have digs: "list_all is_digit s" by (rule parse_uint_loop_Inr_digits)
  have "parse_uint s =
          (if decimal_value s < 2 ^ 64 then Inr (word_of_nat (decimal_value s))
           else Inl (NumError ''ParseUint'' s ErrRange))"
    using ne digs by (rule parse_uint_digits)
  with assms have lt: "decimal_value s < 2 ^ 64" and "v = word_of_nat (decimal_value s)"
    by (auto split: if_splits)
  then have "unat v = decimal_value s" by (simp add: unat_u64_of_nat)
  with ne digs lt show ?thesis by simp
qed

subsection \<open>The printer against the reference\<close>

lemma digit_char_digit:
  assumes "d < 10"
  shows "is_digit (digit_char d) \<and> digit_val (digit_char d) = d"
proof -
  have "of_char (digit_char d) = (48 + d :: nat)"
    using assms by (simp add: digit_char_def)
  then show ?thesis using assms by (simp add: is_digit_def digit_val_def)
qed

lemma foldl_decimal_step_shift:
  "foldl decimal_step v cs = v * 10 ^ length cs + decimal_value cs"
proof (induction cs arbitrary: v)
  case Nil
  then show ?case by (simp add: decimal_value_def)
next
  case (Cons c cs)
  have "foldl decimal_step v (c # cs) = decimal_step v c * 10 ^ length cs + decimal_value cs"
    by (simp add: Cons.IH)
  moreover have "decimal_value (c # cs) = decimal_step 0 c * 10 ^ length cs + decimal_value cs"
    using Cons.IH [of "decimal_step 0 c"] by (simp add: decimal_value_def)
  moreover have "decimal_step v c = 10 * v + decimal_step 0 c" by (simp add: decimal_step_def)
  ultimately show ?case by (simp only: list.size add_Suc add_0 power_Suc add_ac mult_ac distrib_right distrib_left)
qed

lemma div_mod_shift: "(n div 10) * 10 ^ Suc k + (n mod 10) * 10 ^ k = (n :: nat) * 10 ^ k"
proof -
  have "(n div 10) * 10 ^ Suc k + (n mod 10) * 10 ^ k = (n div 10 * 10 + n mod 10) * 10 ^ k"
    by (simp only: power_Suc distrib_right distrib_left mult_ac)
  also have "\<dots> = n * 10 ^ k" by simp
  finally show ?thesis .
qed

lemma decimal_value_Cons:
  "decimal_value (c # cs) = digit_val c * 10 ^ length cs + decimal_value cs"
  using foldl_decimal_step_shift [of "decimal_step 0 c" cs]
  by (simp add: decimal_value_def decimal_step_def)

lemma format_bits_value:
  "list_all is_digit a \<Longrightarrow>
     format_bits u a \<noteq> [] \<and> list_all is_digit (format_bits u a)
     \<and> decimal_value (format_bits u a) = unat u * 10 ^ length a + decimal_value a"
proof (induction u a rule: format_bits.induct)
  case (1 u a)
  show ?case
  proof (cases "u < 10")
    case True
    then have "unat u < 10" by (simp add: word_less_nat_alt)
    then have "is_digit (digit_char (unat u))" "digit_val (digit_char (unat u)) = unat u"
      by (simp_all add: digit_char_digit)
    with True "1.prems" show ?thesis
      by (simp add: format_bits.simps decimal_value_Cons)
  next
    case False
    have m: "unat (u mod 10) < 10" by (simp add: unat_mod)
    then have dig: "is_digit (digit_char (unat (u mod 10)))"
      and val: "digit_val (digit_char (unat (u mod 10))) = unat u mod 10"
      by (simp_all add: digit_char_digit unat_mod)
    have da: "decimal_value (digit_char (unat (u mod 10)) # a) = (unat u mod 10) * 10 ^ length a + decimal_value a"
      using val by (simp add: decimal_value_Cons)
    have fb: "format_bits u a = format_bits (u div 10) (digit_char (unat (u mod 10)) # a)"
      using False by (simp add: format_bits.simps [of u a])
    have "list_all is_digit (digit_char (unat (u mod 10)) # a)" using dig "1.prems" by simp
    note ih = "1.IH" [OF False this]
    have "unat (u div 10) * 10 ^ length (digit_char (unat (u mod 10)) # a)
          + (unat u mod 10) * 10 ^ length a = unat u * 10 ^ length a"
      using div_mod_shift [of "unat u" "length a"] by (simp add: unat_div)
    with ih da fb show ?thesis by simp
  qed
qed

lemma format_bits_append: "format_bits u acc = format_bits u [] @ acc"
proof (induction "unat u" arbitrary: u acc rule: less_induct)
  case less
  show ?case
  proof (cases "u < 10")
    case True
    then show ?thesis by (simp add: format_bits.simps [of u])
  next
    case False
    then have lt: "unat (u div 10) < unat u" by (simp add: word_less_nat_alt unat_div)
    have "format_bits u acc = format_bits (u div 10) [] @ digit_char (unat (u mod 10)) # acc"
      using False less [OF lt, of "digit_char (unat (u mod 10)) # acc"]
      by (simp add: format_bits.simps [of u acc])
    moreover have "format_bits u [] = format_bits (u div 10) [] @ [digit_char (unat (u mod 10))]"
      using False less [OF lt, of "[digit_char (unat (u mod 10))]"]
      by (simp add: format_bits.simps [of u "[]"])
    ultimately show ?thesis by simp
  qed
qed

lemma digit_char_val: "is_digit c \<Longrightarrow> digit_char (digit_val c) = c"
  by (simp add: is_digit_def digit_val_def digit_char_def)

lemma decimal_value_snoc: "decimal_value (cs @ [c]) = 10 * decimal_value cs + digit_val c"
  by (simp add: decimal_value_def decimal_step_def)

lemma decimal_value_pos:
  "is_digit c \<Longrightarrow> c \<noteq> CHR ''0'' \<Longrightarrow> 0 < decimal_value (c # cs)"
proof -
  assume "is_digit c" "c \<noteq> CHR ''0''"
  have "of_char c \<noteq> (48 :: nat)"
  proof
    assume h: "of_char c = (48 :: nat)"
    have "of_char (CHR ''0'') = (48 :: nat)" by simp
    with h have "c = CHR ''0''" by (metis of_char_eq_iff)
    with \<open>c \<noteq> CHR ''0''\<close> show False ..
  qed
  with \<open>is_digit c\<close> have "0 < digit_val c" by (auto simp: is_digit_def digit_val_def)
  then show ?thesis by (simp add: decimal_value_Cons)
qed

lemma format_decimal_value:
  "cs \<noteq> [] \<Longrightarrow> list_all is_digit cs \<Longrightarrow> (hd cs = CHR ''0'' \<longrightarrow> cs = ''0'')
   \<Longrightarrow> decimal_value cs < 2 ^ 64 \<Longrightarrow> format_uint (word_of_nat (decimal_value cs)) = cs"
proof (induction cs rule: rev_induct)
  case Nil
  then show ?case by simp
next
  case (snoc c cs)
  have dc: "is_digit c" and dcs: "list_all is_digit cs" using snoc.prems(2) by auto
  have d10: "digit_val c < 10" using dc by (rule digit_val_lt)
  show ?case
  proof (cases "cs = []")
    case True
    with dc d10 show ?thesis
      by (simp add: format_uint_def format_bits.simps decimal_value_def decimal_step_def
          word_less_nat_alt unat_u64_of_nat digit_char_val)
  next
    case False
    then obtain c0 cs' where cs: "cs = c0 # cs'" by (cases cs) auto
    have "hd cs \<noteq> CHR ''0''" using snoc.prems(3) cs by auto
    with cs dcs have pos: "0 < decimal_value cs" by (simp add: decimal_value_pos)
    have lt: "decimal_value cs < 2 ^ 64" using snoc.prems(4) by (simp add: decimal_value_snoc)
    have val: "decimal_value (cs @ [c]) = 10 * decimal_value cs + digit_val c"
      by (rule decimal_value_snoc)
    let ?w = "word_of_nat (decimal_value (cs @ [c])) :: u64"
    have "unat ?w = decimal_value (cs @ [c])" using snoc.prems(4) by (rule unat_u64_of_nat)
    with val have uw: "unat ?w = 10 * decimal_value cs + digit_val c" by simp
    have ge: "\<not> ?w < 10" using uw pos by (simp add: word_less_nat_alt)
    have q: "?w div 10 = word_of_nat (decimal_value cs)"
      by (rule word_unat_eq_iff [THEN iffD2]) (use uw d10 lt in \<open>simp add: unat_div unat_u64_of_nat\<close>)
    have r: "unat (?w mod 10) = digit_val c"
      using uw d10 by (simp add: unat_mod)
    have "format_uint ?w = format_bits (word_of_nat (decimal_value cs)) [] @ [c]"
      using ge q r dc
      by (simp add: format_uint_def format_bits.simps [of ?w] digit_char_val
          format_bits_append [of _ "[c]"])
    moreover have "format_bits (word_of_nat (decimal_value cs)) [] = cs"
      using snoc.IH [OF False dcs] snoc.prems(3) cs lt by (simp add: format_uint_def)
    ultimately show ?thesis by simp
  qed
qed

subsection \<open>Properties\<close>

text \<open>C16: \<open>ParseUint(s, 10, 64)\<close> succeeds exactly on a non-empty string of decimal digits
  whose value is below \<open>2^64\<close>, and then returns that value: the word-level loop with its
  cutoff and wrap-around tests is equivalent to the arithmetic reference.\<close>

theorem parse_uint_iff:
  "parse_uint s = Inr v \<longleftrightarrow>
     s \<noteq> [] \<and> list_all is_digit s \<and> decimal_value s < 2 ^ 64 \<and> v = word_of_nat (decimal_value s)"
proof
  assume "parse_uint s = Inr v"
  then have "s \<noteq> [] \<and> list_all is_digit s \<and> decimal_value s < 2 ^ 64 \<and> unat v = decimal_value s"
    by (rule parse_uint_Inr)
  moreover have "v = word_of_nat (unat v)" by simp
  ultimately show "s \<noteq> [] \<and> list_all is_digit s \<and> decimal_value s < 2 ^ 64 \<and> v = word_of_nat (decimal_value s)"
    by simp
next
  assume "s \<noteq> [] \<and> list_all is_digit s \<and> decimal_value s < 2 ^ 64 \<and> v = word_of_nat (decimal_value s)"
  then show "parse_uint s = Inr v" using parse_uint_digits [of s] by simp
qed

text \<open>C32: A digit string whose value does not fit in 64 bits is a range error of
  \<open>ParseUint\<close> carrying the string, never a wrapped-around value.\<close>

theorem parse_uint_overflow:
  assumes "s \<noteq> []" and "list_all is_digit s" and "2 ^ 64 \<le> decimal_value s"
  shows "parse_uint s = Inl (NumError ''ParseUint'' s ErrRange)"
  using parse_uint_digits [OF assms(1,2)] assms(3) by simp

theorem parse_uint_overflow_witness:
  "parse_uint ''18446744073709551616'' = Inl (NumError ''ParseUint'' ''18446744073709551616'' ErrRange)"
proof -
  have h: "''18446744073709551616'' \<noteq> []" "list_all is_digit ''18446744073709551616''"
    "2 ^ 64 \<le> decimal_value ''18446744073709551616''"
    by (simp_all add: is_digit_def decimal_value_def decimal_step_def digit_val_def)
  show ?thesis using parse_uint_overflow [OF h] .
qed

text \<open>Round trip of the printer and the parser: \<open>ParseUint(FormatUint(u, 10), 10, 64)\<close>
  returns \<open>u\<close> for every \<open>uint64\<close>, the largest one included.\<close>

lemma parse_format_uint: "parse_uint (format_uint u) = Inr u"
proof -
  have f: "format_uint u \<noteq> [] \<and> list_all is_digit (format_uint u)
      \<and> decimal_value (format_uint u) = unat u"
    using format_bits_value [of "[]" u] by (simp add: format_uint_def decimal_value_def)
  then have "decimal_value (format_uint u) < 2 ^ 64" using unsigned_less [of u] by simp
  with f show ?thesis by (simp add: parse_uint_digits)
qed

text \<open>Round trip the other way: a decimal string without a leading zero that
  \<open>ParseUint\<close> accepts is printed back as itself by \<open>FormatUint\<close>.\<close>

lemma format_parse_uint:
  assumes "parse_uint s = Inr v" and "hd s = CHR ''0'' \<longrightarrow> s = ''0''"
  shows "format_uint v = s"
proof -
  have "s \<noteq> [] \<and> list_all is_digit s \<and> decimal_value s < 2 ^ 64 \<and> unat v = decimal_value s"
    using assms(1) by (rule parse_uint_Inr)
  moreover have "v = word_of_nat (unat v)" by simp
  ultimately show ?thesis using assms(2) format_decimal_value [of s] by simp
qed

lemma format_parse_uint_example: "format_uint 18446744073709551615 = ''18446744073709551615''"
proof -
  have h: "parse_uint ''18446744073709551615'' = Inr 18446744073709551615"
    by (simp add: parse_uint_digits is_digit_def decimal_value_def decimal_step_def digit_val_def)
  have "hd ''18446744073709551615'' = CHR ''0'' \<longrightarrow> ''18446744073709551615'' = ''0''" by simp
  from format_parse_uint [OF h this] show ?thesis .
qed

end
