(* ===== verification/Price.thy ===== *)
theory Price
  imports Strconv
begin

text \<open>
  The price parser \<open>extractFirstCurrency\<close> of \<open>src/product.go\<close>. It compares its
  input with the literal \<open>"FREE"\<close>, matches the regular expression
  \<open>^([^\d]+)([\d,]+)\<close> with Go's \<open>regexp\<close> package, strips the commas of the second
  group with \<open>strings.ReplaceAll\<close> and converts it with \<open>strconv.ParseUint(_, 10, 64)\<close>
  (theory \<open>Strconv\<close>). The regular-expression match is modelled with the semantics Go
  gives it: leftmost-first, the greedy first group trying its longest length first and
  giving back one byte at a time. A closed form of the match is proved, and from it the
  behaviour of the parser on every shape of input.
\<close>

definition is_digit_or_comma :: "char \<Rightarrow> bool" where
  "is_digit_or_comma c \<longleftrightarrow> is_digit c \<or> c = CHR '',''"

declare is_digit_or_comma_def [go_defs]

subsection \<open>The regular expression \<open>^([^\d]+)([\d,]+)\<close>\<close>

text \<open>
  \<open>re_price_try s k\<close> tries the first group with its \<open>k\<close> first bytes, then with fewer:
  the group must be all non-digits, and the next byte must start the second group, which
  then takes the longest run of digits and commas. Byte positions are rune boundaries
  wherever the match can stop (digits and commas are ASCII), so the byte-level model is
  the rune-level matcher of Go.
\<close>

fun re_price_try :: "string \<Rightarrow> nat \<Rightarrow> (string \<times> string) option" where
  "re_price_try s 0 = None"
| "re_price_try s (Suc k) =
     (if list_all (\<lambda>c. \<not> is_digit c) (take (Suc k) s)
         \<and> (case drop (Suc k) s of [] \<Rightarrow> False | c # _ \<Rightarrow> is_digit_or_comma c)
      then Some (take (Suc k) s, takeWhile is_digit_or_comma (drop (Suc k) s))
      else re_price_try s k)"

definition re_price_submatch :: "string \<Rightarrow> (string \<times> string) option" where
  "re_price_submatch s = re_price_try s (length s)"

definition replace_all_comma :: "string \<Rightarrow> string" where
  "replace_all_comma s = concat (map (\<lambda>c. if c = CHR '','' then [] else [c]) s)"

definition extractFirstCurrency :: "string \<Rightarrow> error + (string \<times> u64)" where
  "extractFirstCurrency s =
     (if s = ''FREE'' then Inr ([], 0)
      else (case re_price_submatch s of
              Some (currency, number) \<Rightarrow>
                (case parse_uint (replace_all_comma number) of
                   Inl err \<Rightarrow> Inl err
                 | Inr value \<Rightarrow> Inr (currency, value))
            | None \<Rightarrow> Inl (PriceFormat s)))"

text \<open>
  The value of the number run: the decimal value of its digits once the commas are
  removed (the \<open>strings.ReplaceAll\<close> step).
\<close>

definition price_number :: "string \<Rightarrow> string" where
  "price_number r = replace_all_comma (takeWhile is_digit_or_comma r)"

text \<open>
  The marketplace displays a price as a currency followed by the decimal digits of the
  value grouped in threes by commas (\<open>"$1,234"\<close>). \<open>group_rev\<close> groups a digit
  string given least significant digit first; \<open>group_thousands\<close> is the display form.
\<close>

fun group_rev :: "string \<Rightarrow> string" where
  "group_rev (a # b # c # d # rest) = a # b # c # CHR '','' # group_rev (d # rest)"
| "group_rev xs = xs"

definition group_thousands :: "string \<Rightarrow> string" where
  "group_thousands ds = rev (group_rev (rev ds))"

declare re_price_submatch_def [go_defs] replace_all_comma_def [go_defs]
  extractFirstCurrency_def [go_defs]

subsection \<open>Closed form of the match\<close>

lemma replace_all_comma_filter: "replace_all_comma s = filter (\<lambda>c. c \<noteq> CHR '','') s"
  by (induction s) (auto simp: replace_all_comma_def)

lemma re_price_try_above:
  assumes "list_all (\<lambda>c. \<not> is_digit c) cur" and "is_digit d" and "length cur \<le> k"
  shows "re_price_try (cur @ d # rest) k = re_price_try (cur @ d # rest) (length cur)"
  using assms(3)
proof (induction k)
  case 0
  then show ?case by simp
next
  case (Suc k)
  show ?case
  proof (cases "Suc k = length cur")
    case True
    then show ?thesis by simp
  next
    case False
    with Suc.prems have "length cur \<le> k" by simp
    moreover have notall: "list_all (\<lambda>c. \<not> is_digit c) (take (Suc k) (cur @ d # rest)) = False"
      using \<open>length cur \<le> k\<close> assms(2) by (auto simp: list_all_iff Suc_diff_le)
    then have "re_price_try (cur @ d # rest) (Suc k) = re_price_try (cur @ d # rest) k"
      by (simp only: re_price_try.simps notall simp_thms if_False)
    ultimately show ?thesis using Suc.IH by simp
  qed
qed

text \<open>
  When a non-empty run of non-digits is followed by a digit, the match takes that whole
  run as the currency and the digits and commas after it as the number.
\<close>

lemma re_price_submatch_digit:
  assumes "cur \<noteq> []" and "list_all (\<lambda>c. \<not> is_digit c) cur" and "is_digit d"
  shows "re_price_submatch (cur @ d # rest) = Some (cur, takeWhile is_digit_or_comma (d # rest))"
proof -
  obtain k where k: "length cur = Suc k" using assms(1) by (cases cur) auto
  have "re_price_submatch (cur @ d # rest) = re_price_try (cur @ d # rest) (length cur)"
    unfolding re_price_submatch_def by (rule re_price_try_above [OF assms(2,3)]) simp
  also have "\<dots> = Some (cur, takeWhile is_digit_or_comma (d # rest))"
    using k assms by (simp add: is_digit_or_comma_def)
  finally show ?thesis .
qed

lemma re_price_try_first_nondigit:
  "re_price_try s k = Some (cur, num) \<Longrightarrow>
     cur \<noteq> [] \<and> list_all (\<lambda>c. \<not> is_digit c) cur \<and> (\<exists>r. s = cur @ r)"
proof (induction s k rule: re_price_try.induct)
  case (1 s)
  then show ?case by simp
next
  case (2 s k)
  then show ?case
    by (auto split: if_splits) (metis append_take_drop_id)
qed

lemma re_price_submatch_starts_digit:
  assumes "is_digit d"
  shows "re_price_submatch (d # rest) = None"
proof (rule ccontr)
  assume "re_price_submatch (d # rest) \<noteq> None"
  then obtain cur num where "re_price_try (d # rest) (length (d # rest)) = Some (cur, num)"
    by (auto simp: re_price_submatch_def)
  then have "cur \<noteq> [] \<and> list_all (\<lambda>c. \<not> is_digit c) cur \<and> (\<exists>r. d # rest = cur @ r)"
    by (rule re_price_try_first_nondigit)
  with assms show False by (cases cur) auto
qed

lemma re_price_submatch_Nil: "re_price_submatch [] = None"
  by (simp add: re_price_submatch_def)

lemma re_price_try_no_digit:
  "re_price_try s k = Some (cur, num) \<Longrightarrow> \<not> (\<exists>c\<in>set s. is_digit c) \<Longrightarrow>
     replace_all_comma num = []"
proof (induction s k rule: re_price_try.induct)
  case (1 s)
  then show ?case by simp
next
  case (2 s k)
  have "c = CHR '',''" if c: "c \<in> set (takeWhile is_digit_or_comma (drop (Suc k) s))" for c
  proof -
    from c have "is_digit_or_comma c" and "c \<in> set (drop (Suc k) s)"
      by (auto dest: set_takeWhileD)
    then have "is_digit_or_comma c" and "c \<in> set s" by (auto dest: in_set_dropD)
    with "2.prems"(2) show ?thesis by (auto simp: is_digit_or_comma_def)
  qed
  with 2 show ?case by (auto simp: replace_all_comma_filter filter_empty_conv split: if_splits)
qed

subsection \<open>Behaviour of \<open>extractFirstCurrency\<close>\<close>

lemma FREE_no_digit: "c \<in> set ''FREE'' \<Longrightarrow> \<not> is_digit c"
  by (auto simp: is_digit_def)

lemma not_FREE_of_digit: "is_digit d \<Longrightarrow> d \<in> set s \<Longrightarrow> s \<noteq> ''FREE''"
  using FREE_no_digit by blast

lemma number_run_digits:
  assumes "is_digit d"
  shows "replace_all_comma (takeWhile is_digit_or_comma (d # rest)) \<noteq> []
         \<and> list_all is_digit (replace_all_comma (takeWhile is_digit_or_comma (d # rest)))"
proof -
  have "\<forall>c \<in> set (takeWhile is_digit_or_comma rest). is_digit_or_comma c"
    by (auto dest: set_takeWhileD)
  then show ?thesis using assms
    by (auto simp: replace_all_comma_filter list_all_iff is_digit_or_comma_def is_digit_def)
qed

lemma extractFirstCurrency_match:
  assumes "cur \<noteq> []" and "list_all (\<lambda>c. \<not> is_digit c) cur" and "is_digit d"
  shows "extractFirstCurrency (cur @ d # rest) =
           (if decimal_value (price_number (d # rest)) < 2 ^ 64
            then Inr (cur, word_of_nat (decimal_value (price_number (d # rest))))
            else Inl (NumError ''ParseUint'' (price_number (d # rest)) ErrRange))"
proof -
  have nf: "cur @ d # rest \<noteq> ''FREE''" using assms(3) by (intro not_FREE_of_digit) auto
  have num: "price_number (d # rest) \<noteq> [] \<and> list_all is_digit (price_number (d # rest))"
    unfolding price_number_def using assms(3) by (rule number_run_digits)
  show ?thesis
    using nf re_price_submatch_digit [OF assms] parse_uint_digits [of "price_number (d # rest)"] num
    by (simp add: extractFirstCurrency_def price_number_def)
qed

lemma extract_digit_first:
  "is_digit d \<Longrightarrow> extractFirstCurrency (d # rest) = Inl (PriceFormat (d # rest))"
  using not_FREE_of_digit [of d "d # rest"]
  by (simp add: extractFirstCurrency_def re_price_submatch_starts_digit)

lemma extractFirstCurrency_Nil: "extractFirstCurrency [] = Inl (PriceFormat [])"
  by (simp add: extractFirstCurrency_def re_price_submatch_Nil)

lemma extract_no_digit:
  assumes "s \<noteq> ''FREE''" and "\<not> (\<exists>c\<in>set s. is_digit c)"
  shows "extractFirstCurrency s = Inl (PriceFormat s)
         \<or> extractFirstCurrency s = Inl (NumError ''ParseUint'' [] ErrSyntax)"
proof (cases "re_price_submatch s")
  case None
  with assms(1) show ?thesis by (simp add: extractFirstCurrency_def)
next
  case (Some m)
  obtain cur num where m: "m = (cur, num)" by (cases m)
  with Some have "re_price_try s (length s) = Some (cur, num)" by (simp add: re_price_submatch_def)
  then have "replace_all_comma num = []" using assms(2) by (rule re_price_try_no_digit)
  with Some m assms(1) show ?thesis by (simp add: extractFirstCurrency_def parse_uint_def)
qed


lemma group_rev_props:
  "list_all is_digit xs \<Longrightarrow> replace_all_comma (group_rev xs) = xs
     \<and> list_all is_digit_or_comma (group_rev xs)
     \<and> (xs \<noteq> [] \<longrightarrow> group_rev xs \<noteq> [] \<and> last (group_rev xs) = last xs)"
  by (induction xs rule: group_rev.induct)
    (auto simp: replace_all_comma_filter is_digit_or_comma_def list_all_iff)

lemma group_thousands_digits:
  assumes "ds \<noteq> []" and "list_all is_digit ds"
  shows "\<exists>d r. group_thousands ds = d # r \<and> is_digit d
           \<and> list_all is_digit_or_comma r \<and> replace_all_comma (d # r) = ds"
proof -
  have "list_all is_digit (rev ds)" using assms(2) by simp
  note g = group_rev_props [OF this]
  have ne: "group_rev (rev ds) \<noteq> []" and l: "last (group_rev (rev ds)) = hd ds"
    using g assms(1) by (simp_all add: last_rev)
  then obtain d r where dr: "group_thousands ds = d # r"
    by (cases "rev (group_rev (rev ds))") (auto simp: group_thousands_def)
  have "d = hd ds" using dr l ne by (simp add: group_thousands_def hd_rev)
  then have dd: "is_digit d" using assms by (cases ds) auto
  have gr: "group_rev (rev ds) = rev (d # r)"
    using dr unfolding group_thousands_def by (metis rev_rev_ident)
  have "list_all is_digit_or_comma (d # r)" using g gr by simp
  moreover have "replace_all_comma (d # r) = rev (replace_all_comma (rev (d # r)))"
    by (simp add: replace_all_comma_filter rev_filter)
  then have "replace_all_comma (d # r) = ds" using g gr by simp
  ultimately show ?thesis using dr dd by auto
qed

subsection \<open>Properties\<close>

text \<open>C18: A price made of a non-empty non-digit prefix followed by a digit run (with
  thousands separators) parses to that prefix as currency and the value of the digits,
  commas removed, when it fits in 64 bits; anything after the first numeric run is
  ignored.\<close>

theorem extractFirstCurrency_price:
  assumes "cur \<noteq> []" and "list_all (\<lambda>c. \<not> is_digit c) cur" and "is_digit d"
    and "decimal_value (price_number (d # rest)) < 2 ^ 64"
  shows "extractFirstCurrency (cur @ d # rest) =
           Inr (cur, word_of_nat (decimal_value (price_number (d # rest))))"
  using extractFirstCurrency_match [OF assms(1-3)] assms(4) by simp

theorem extractFirstCurrency_price_witness:
  "extractFirstCurrency (''$'' @ CHR ''1'' # '',234 - $2'') = Inr (''$'', 1234)"
proof -
  have h: "''$'' \<noteq> []" "list_all (\<lambda>c. \<not> is_digit c) ''$''" "is_digit CHR ''1''"
    "decimal_value (price_number (CHR ''1'' # '',234 - $2'')) < 2 ^ 64"
    by (simp_all add: go_defs price_number_def decimal_value_def decimal_step_def)
  have v: "decimal_value (price_number (CHR ''1'' # '',234 - $2'')) = 1234"
    by (simp add: go_defs price_number_def decimal_value_def decimal_step_def)
  show ?thesis using extractFirstCurrency_price [OF h] v by simp
qed

text \<open>C29: A price whose digit run exceeds the range of \<open>uint64\<close> is the range error of
  \<open>ParseUint\<close> on the comma-free digits; it is never truncated or wrapped.\<close>

theorem extractFirstCurrency_overflow:
  assumes "cur \<noteq> []" and "list_all (\<lambda>c. \<not> is_digit c) cur" and "is_digit d"
    and "2 ^ 64 \<le> decimal_value (price_number (d # rest))"
  shows "extractFirstCurrency (cur @ d # rest) =
           Inl (NumError ''ParseUint'' (price_number (d # rest)) ErrRange)"
  using extractFirstCurrency_match [OF assms(1-3)] assms(4) by simp

theorem extractFirstCurrency_overflow_witness:
  "extractFirstCurrency (''$'' @ CHR ''9'' # ''9,999,999,999,999,999,999'')
     = Inl (NumError ''ParseUint'' ''99999999999999999999'' ErrRange)"
proof -
  have h: "''$'' \<noteq> []" "list_all (\<lambda>c. \<not> is_digit c) ''$''" "is_digit CHR ''9''"
    "2 ^ 64 \<le> decimal_value (price_number (CHR ''9'' # ''9,999,999,999,999,999,999''))"
    by (simp_all add: go_defs price_number_def decimal_value_def decimal_step_def)
  have n: "price_number (CHR ''9'' # ''9,999,999,999,999,999,999'') = ''99999999999999999999''"
    by (simp add: go_defs price_number_def)
  show ?thesis using extractFirstCurrency_overflow [OF h] n by simp
qed

text \<open>C30: Input that starts with a digit has no currency prefix and is rejected with the
  format error carrying the input.\<close>

theorem extractFirstCurrency_digit_first:
  "is_digit d \<Longrightarrow> extractFirstCurrency (d # rest) = Inl (PriceFormat (d # rest))"
  by (rule extract_digit_first)

theorem extractFirstCurrency_digit_first_witness:
  "extractFirstCurrency ''1234'' = Inl (PriceFormat ''1234'')"
proof -
  have h: "is_digit CHR ''1''" by (simp add: is_digit_def)
  show ?thesis using extractFirstCurrency_digit_first [OF h, of "''234''"] by simp
qed

text \<open>C31: Input with no digit at all (other than \<open>"FREE"\<close>) is always an error: the format
  error when no comma follows the first byte, and otherwise the syntax error of
  \<open>ParseUint\<close> on the empty string, because the regular expression then backtracks to
  match a lone comma as the number.\<close>

theorem extractFirstCurrency_no_digit:
  assumes "s \<noteq> ''FREE''" and "\<not> (\<exists>c\<in>set s. is_digit c)"
  shows "extractFirstCurrency s = Inl (PriceFormat s)
         \<or> extractFirstCurrency s = Inl (NumError ''ParseUint'' [] ErrSyntax)"
  using assms by (rule extract_no_digit)

theorem extractFirstCurrency_no_digit_witness:
  "extractFirstCurrency ''$,'' = Inl (NumError ''ParseUint'' [] ErrSyntax)"
proof -
  have h: "''$,'' \<noteq> ''FREE''" "\<not> (\<exists>c\<in>set ''$,''. is_digit c)" by (simp_all add: is_digit_def)
  have "extractFirstCurrency ''$,'' \<noteq> Inl (PriceFormat ''$,'')" by (simp add: go_defs)
  then show ?thesis using extractFirstCurrency_no_digit [OF h] by blast
qed

text \<open>C17: Soundness of the price parser: a successful parse is either the \<open>"FREE"\<close>
  case, giving the empty currency and amount 0, or the currency is the whole non-empty
  run of non-digit bytes that starts the input, a digit follows it, and the amount is
  the value of the run of digits and commas after it, commas removed.\<close>

theorem extractFirstCurrency_Inr:
  assumes "extractFirstCurrency s = Inr (cur, v)"
  shows "(s = ''FREE'' \<and> cur = [] \<and> v = 0)
         \<or> (cur \<noteq> [] \<and> list_all (\<lambda>c. \<not> is_digit c) cur
            \<and> (\<exists>d rest. is_digit d \<and> s = cur @ d # rest
                       \<and> unat v = decimal_value (price_number (d # rest))))"
proof (cases "s = ''FREE''")
  case True
  with assms show ?thesis by (simp add: extractFirstCurrency_def)
next
  case nf: False
  show ?thesis
  proof (cases "\<exists>c\<in>set s. is_digit c")
    case False
    with nf assms show ?thesis using extract_no_digit [OF nf False] by simp
  next
    case True
    then obtain p d rest where s: "s = p @ d # rest" and d: "is_digit d"
      and p: "\<forall>y\<in>set p. \<not> is_digit y"
      by (rule split_list_first_propE)
    show ?thesis
    proof (cases p)
      case Nil
      with s d assms show ?thesis by (simp add: extract_digit_first)
    next
      case (Cons a p')
      then have pne: "p \<noteq> []" by simp
      have pall: "list_all (\<lambda>c. \<not> is_digit c) p" using p by (simp add: list_all_iff)
      from assms s extractFirstCurrency_match [OF pne pall d]
      have "cur = p" and "decimal_value (price_number (d # rest)) < 2 ^ 64"
        and "v = word_of_nat (decimal_value (price_number (d # rest)))"
        by (auto split: if_splits)
      then show ?thesis using s d pne pall by (simp add: unat_u64_of_nat)
    qed
  qed
qed

theorem extractFirstCurrency_Inr_witness:
  "extractFirstCurrency ''$5'' = Inr (''$'', 5)
   \<and> (\<exists>d rest. is_digit d \<and> ''$5'' = ''$'' @ d # rest
        \<and> unat (5::u64) = decimal_value (price_number (d # rest)))"
proof -
  have h: "extractFirstCurrency ''$5'' = Inr (''$'', 5)"
    by (simp add: go_defs word_le_nat_alt word_less_nat_alt)
  show ?thesis using h extractFirstCurrency_Inr [OF h] by simp
qed


text \<open>C19: Round trip of the display format: a price printed as a non-empty currency
  without digits followed by the value of \<open>FormatUint\<close> grouped in thousands (and
  anything that does not continue the number) is read back by \<open>extractFirstCurrency\<close>
  as that currency and that value, for every \<open>uint64\<close> value.\<close>

theorem extractFirstCurrency_format:
  assumes "cur \<noteq> []" and "list_all (\<lambda>c. \<not> is_digit c) cur"
    and "takeWhile is_digit_or_comma rest = []"
  shows "extractFirstCurrency (cur @ group_thousands (format_uint n) @ rest) = Inr (cur, n)"
proof -
  have f: "format_uint n \<noteq> [] \<and> list_all is_digit (format_uint n)
      \<and> decimal_value (format_uint n) = unat n"
    using format_bits_value [of "[]" n] by (simp add: format_uint_def decimal_value_def)
  then obtain d r where dr: "group_thousands (format_uint n) = d # r" and d: "is_digit d"
    and r: "list_all is_digit_or_comma r" and rc: "replace_all_comma (d # r) = format_uint n"
    using group_thousands_digits [of "format_uint n"] by blast
  have "takeWhile is_digit_or_comma (d # r @ rest) = d # r"
    using d r assms(3) by (simp add: takeWhile_append2 list_all_iff is_digit_or_comma_def)
  then have pn: "price_number (d # r @ rest) = format_uint n"
    using rc by (simp add: price_number_def)
  have "extractFirstCurrency (cur @ d # r @ rest) = Inr (cur, word_of_nat (unat n))"
    using extractFirstCurrency_match [OF assms(1,2) d, of "r @ rest"] pn f unsigned_less [of n]
    by simp
  then show ?thesis using dr by simp
qed

theorem extractFirstCurrency_format_witness:
  "extractFirstCurrency (''$'' @ group_thousands (format_uint 1234567) @ '' - Berlin'') = Inr (''$'', 1234567)"
proof -
  have h: "''$'' \<noteq> []" "list_all (\<lambda>c. \<not> is_digit c) ''$''"
    "takeWhile is_digit_or_comma '' - Berlin'' = []"
    by (simp_all add: go_defs)
  from extractFirstCurrency_format [OF h] show ?thesis .
qed


text \<open>C20: Round trip the other way: when \<open>extractFirstCurrency\<close> accepts a price whose
  number is a plain decimal run without a leading zero, printing the value it returns
  with \<open>FormatUint\<close> gives back that run, and the currency is the prefix: the parse
  loses nothing.\<close>

theorem extractFirstCurrency_print:
  assumes "extractFirstCurrency (cur @ ds) = Inr (cur', v)"
    and "cur \<noteq> []" and "list_all (\<lambda>c. \<not> is_digit c) cur"
    and "ds \<noteq> []" and "list_all is_digit ds" and "hd ds \<noteq> CHR ''0''"
  shows "cur' = cur \<and> format_uint v = ds"
proof -
  obtain d r where ds: "ds = d # r" using assms(4) by (cases ds) auto
  have d: "is_digit d" using assms(5) ds by simp
  have "\<forall>c\<in>set ds. is_digit_or_comma c \<and> c \<noteq> CHR '',''"
    using assms(5) by (auto simp: list_all_iff is_digit_or_comma_def)
  then have "takeWhile is_digit_or_comma ds = ds" "filter (\<lambda>c. c \<noteq> CHR '','') ds = ds"
    by (simp_all add: takeWhile_eq_all_conv filter_id_conv)
  then have pn: "price_number (d # r) = ds"
    using ds by (simp add: price_number_def replace_all_comma_filter)
  have e: "extractFirstCurrency (cur @ ds) =
      (if decimal_value ds < 2 ^ 64 then Inr (cur, word_of_nat (decimal_value ds))
       else Inl (NumError ''ParseUint'' ds ErrRange))"
    using extractFirstCurrency_match [OF assms(2,3) d, of r] pn ds by simp
  with assms(1) have c: "cur' = cur" and p: "parse_uint ds = Inr v"
    using parse_uint_digits [OF assms(4,5)] by (simp_all split: if_splits)
  have "hd ds = CHR ''0'' \<longrightarrow> ds = ''0''" using assms(6) by simp
  with p have "format_uint v = ds" by (rule format_parse_uint)
  with c show ?thesis ..
qed

theorem extractFirstCurrency_print_witness:
  "format_uint 1234 = ''1234''"
proof -
  have h: "extractFirstCurrency (''$'' @ ''1234'') = Inr (''$'', 1234)" "''$'' \<noteq> []"
    "list_all (\<lambda>c. \<not> is_digit c) ''$''" "''1234'' \<noteq> []" "list_all is_digit ''1234''"
    "hd ''1234'' \<noteq> CHR ''0''"
    by (simp_all add: go_defs word_le_nat_alt word_less_nat_alt)
  from extractFirstCurrency_print [OF h] show ?thesis by simp
qed

end
