(* ===== verification/Url.thy ===== *)
theory Url
  imports Prelude
begin

text \<open>
  Go's \<open>net/url.Parse\<close>, which \<open>fetchMoreProducts\<close> applies to the \<open>href\<close> of every
  listing; the listing's identifier is the \<open>Path\<close> field of the result. This is library
  code outside the repository, modelled from its documented algorithm: cut the fragment
  at the first \<open>#\<close>, refuse control bytes, split off the scheme, the query (or the
  \<open>ForceQuery\<close> marker), the authority and the path, and percent-decode the path and
  the fragment; the authority is split into the userinfo (user name and optional
  password, percent-decoded) and the host, which \<open>parseHost\<close> checks: an IPv6 literal
  in brackets with an optional \<open>%25\<close> zone, an optional numeric port, only the bytes
  a host may hold, percent escapes only for non-ASCII bytes. \<open>RawPath\<close> is not
  recorded (the scraper reads \<open>Path\<close>). The theory proves that the path does not depend
  on the query or the fragment of the link, nor on whether the link is absolute (with a
  scheme and a host) or relative, which makes it the stable identifier the scraper
  wants.
\<close>

record url =
  scheme :: string
  opaque :: string
  user :: "(string \<times> string option) option"
  host :: string
  url_path :: string
  force_query :: bool
  raw_query :: string
  fragment :: string
  omit_host :: bool

definition empty_url :: url where
  "empty_url = \<lparr>scheme = [], opaque = [], user = None, host = [], url_path = [],
     force_query = False, raw_query = [], fragment = [], omit_host = False\<rparr>"

subsection \<open>Helpers of the package\<close>

definition ascii_lower :: "char \<Rightarrow> char" where
  "ascii_lower c = (if 65 \<le> (of_char c :: nat) \<and> (of_char c :: nat) \<le> 90
                    then char_of (of_char c + (32::nat)) else c)"

text \<open>\<open>unescape(s, mode)\<close> for the path and fragment modes: every \<open>%\<close> must start a
  two-hex-digit escape, else \<open>EscapeError\<close> of the (at most three) bytes from it.\<close>

fun unescape :: "string \<Rightarrow> url_err + string" where
  "unescape [] = Inr []"
| "unescape (c # cs) =
     (if c = CHR ''%'' then
        (case cs of
           a # b # rest \<Rightarrow>
             (if is_hex a \<and> is_hex b then
                (case unescape rest of
                   Inl e \<Rightarrow> Inl e
                 | Inr r \<Rightarrow> Inr (char_of (16 * hex_val a + hex_val b) # r))
              else Inl (InvalidEscape (take 3 (c # cs))))
         | _ \<Rightarrow> Inl (InvalidEscape (take 3 (c # cs))))
      else (case unescape cs of Inl e \<Rightarrow> Inl e | Inr r \<Rightarrow> Inr (c # r)))"

text \<open>\<open>getScheme\<close>: the scheme is a letter followed by letters, digits, \<open>+\<close>, \<open>-\<close>, \<open>.\<close>,
  ended by \<open>:\<close>; any other byte first means there is no scheme.\<close>

fun get_scheme_go :: "string \<Rightarrow> string \<Rightarrow> url_err + (string \<times> string)" where
  "get_scheme_go acc [] = Inr ([], rev acc)"
| "get_scheme_go acc (c # cs) =
     (if is_alpha c then get_scheme_go (c # acc) cs
      else if is_digit c \<or> c = CHR ''+'' \<or> c = CHR ''-'' \<or> c = CHR ''.'' then
        (if acc = [] then Inr ([], c # cs) else get_scheme_go (c # acc) cs)
      else if c = CHR '':'' then
        (if acc = [] then Inl MissingProtocolScheme else Inr (rev acc, cs))
      else Inr ([], rev acc @ c # cs))"

definition get_scheme :: "string \<Rightarrow> url_err + (string \<times> string)" where
  "get_scheme raw = get_scheme_go [] raw"

definition valid_userinfo_char :: "char \<Rightarrow> bool" where
  "valid_userinfo_char c \<longleftrightarrow> is_alpha c \<or> is_digit c \<or> c \<in> set ''-._:~!$&'()*+,;=%@''"

text \<open>\<open>shouldEscape(c, encodeHost)\<close>: the bytes a host may not hold as they are (letters,
  digits, the sub-delimiters, \<open>: [ ] < > "\<close> and the unreserved marks are allowed).\<close>

definition should_escape_host :: "char \<Rightarrow> bool" where
  "should_escape_host c \<longleftrightarrow>
     \<not> (is_alpha c \<or> is_digit c \<or> c \<in> set ''!$&'()*+,;=:[]<>-_.~'' \<or> c = CHR 0x22)"

text \<open>\<open>unescape(s, encodeHost)\<close> and \<open>unescape(s, encodeZone)\<close> (\<open>zone\<close>): an escape in a
  host must encode a non-ASCII byte or be \<open>%25\<close>; in a zone it may encode a space,
  \<open>%\<close> or a byte a host may hold; an ASCII byte a host may not hold is an
  \<open>InvalidHostError\<close>. The library checks the whole string before decoding; the first
  error in left-to-right order is the one it reports, as here.\<close>

fun unescape_host :: "bool \<Rightarrow> string \<Rightarrow> url_err + string" where
  "unescape_host zone [] = Inr []"
| "unescape_host zone (c # cs) =
     (if c = CHR ''%'' then
        (case cs of
           a # b # rest \<Rightarrow>
             (if \<not> (is_hex a \<and> is_hex b) then Inl (InvalidEscape (take 3 (c # cs)))
              else if \<not> zone \<and> hex_val a < 8 \<and> [a, b] \<noteq> ''25''
              then Inl (InvalidEscape [c, a, b])
              else if zone \<and> [a, b] \<noteq> ''25'' \<and> 16 * hex_val a + hex_val b \<noteq> 32
                      \<and> should_escape_host (char_of (16 * hex_val a + hex_val b))
              then Inl (InvalidEscape [c, a, b])
              else (case unescape_host zone rest of
                      Inl e \<Rightarrow> Inl e
                    | Inr r \<Rightarrow> Inr (char_of (16 * hex_val a + hex_val b) # r)))
         | _ \<Rightarrow> Inl (InvalidEscape (take 3 (c # cs))))
      else if (of_char c :: nat) < 128 \<and> should_escape_host c then Inl (InvalidHostChar [c])
      else (case unescape_host zone cs of Inl e \<Rightarrow> Inl e | Inr r \<Rightarrow> Inr (c # r)))"

text \<open>\<open>validOptionalPort\<close>: empty, or a colon followed by digits.\<close>

definition valid_optional_port :: "string \<Rightarrow> bool" where
  "valid_optional_port p \<longleftrightarrow> p = [] \<or> (hd p = CHR '':'' \<and> list_all is_digit (tl p))"

text \<open>\<open>strings.Index(s, "%25")\<close>, as the split of \<open>s\<close> before that index.\<close>

fun zone_split :: "string \<Rightarrow> (string \<times> string) option" where
  "zone_split (a # b # c # rest) =
     (if [a, b, c] = ''%25'' then Some ([], a # b # c # rest)
      else (case zone_split (b # c # rest) of
              None \<Rightarrow> None
            | Some (x, y) \<Rightarrow> Some (a # x, y)))"
| "zone_split _ = None"

text \<open>\<open>parseHost\<close>: an IPv6 literal \<open>[...]\<close> is cut at the last \<open>]\<close>, what follows must
  be an optional port, and a zone introduced by \<open>%25\<close> is decoded in zone mode; any
  other host has its optional port after the last colon checked; the host is then
  decoded in host mode.\<close>

definition parse_host :: "string \<Rightarrow> url_err + string" where
  "parse_host h =
     (if take 1 h = ''[''
      then (if CHR '']'' \<notin> set h then Inl MissingBracket
            else (let colon_port = rev (takeWhile (\<lambda>c. c \<noteq> CHR '']'') (rev h));
                      lit = rev (tl (dropWhile (\<lambda>c. c \<noteq> CHR '']'') (rev h)))
                  in if \<not> valid_optional_port colon_port then Inl (InvalidPort colon_port)
                     else (case zone_split lit of
                             None \<Rightarrow> unescape_host False h
                           | Some (h1, z) \<Rightarrow>
                               (case unescape_host False h1 of
                                  Inl e \<Rightarrow> Inl e
                                | Inr a \<Rightarrow>
                                    (case unescape_host True z of
                                       Inl e \<Rightarrow> Inl e
                                     | Inr b \<Rightarrow>
                                         (case unescape_host False (CHR '']'' # colon_port) of
                                            Inl e \<Rightarrow> Inl e
                                          | Inr c \<Rightarrow> Inr (a @ b @ c)))))))
      else if CHR '':'' \<in> set h
      then (let colon_port = CHR '':'' # rev (takeWhile (\<lambda>c. c \<noteq> CHR '':'') (rev h))
            in if \<not> valid_optional_port colon_port then Inl (InvalidPort colon_port)
               else unescape_host False h)
      else unescape_host False h)"

text \<open>\<open>parseAuthority\<close>: the host follows the last \<open>@\<close> and is parsed first; the
  userinfo before it must hold only the allowed bytes, and is split at its first colon
  into the user name and the password, each percent-decoded.\<close>

definition parse_authority :: "string \<Rightarrow> url_err + ((string \<times> string option) option \<times> string)" where
  "parse_authority a =
     (let at = CHR ''@'' \<in> set a;
          hostpart = (if at then rev (takeWhile (\<lambda>c. c \<noteq> CHR ''@'') (rev a)) else a)
      in case parse_host hostpart of
           Inl e \<Rightarrow> Inl e
         | Inr h \<Rightarrow>
             (if \<not> at then Inr (None, h)
              else (let userinfo = rev (tl (dropWhile (\<lambda>c. c \<noteq> CHR ''@'') (rev a)))
                    in if \<not> list_all valid_userinfo_char userinfo then Inl InvalidUserinfo
                       else (case str_cut CHR '':'' userinfo of
                               (un, None) \<Rightarrow>
                                 (case unescape un of
                                    Inl e \<Rightarrow> Inl e
                                  | Inr u \<Rightarrow> Inr (Some (u, None), h))
                             | (un, Some pw) \<Rightarrow>
                                 (case unescape un of
                                    Inl e \<Rightarrow> Inl e
                                  | Inr u \<Rightarrow>
                                      (case unescape pw of
                                         Inl e \<Rightarrow> Inl e
                                       | Inr p \<Rightarrow> Inr (Some (u, Some p), h)))))))"

subsection \<open>\<open>parse\<close> and \<open>Parse\<close>\<close>

text \<open>The part of \<open>parse(rawURL, viaRequest = false)\<close> after the query is split off.\<close>

definition parse_rest :: "url \<Rightarrow> string \<Rightarrow> url_err + url" where
  "parse_rest u rest =
     (if \<not> (take 1 rest = ''/'') \<and> scheme u \<noteq> [] then Inr (u\<lparr>opaque := rest\<rparr>)
      else if \<not> (take 1 rest = ''/'') \<and> CHR '':'' \<in> set (fst (str_cut CHR ''/'' rest))
      then Inl ColonInFirstSegment
      else if (scheme u \<noteq> [] \<or> \<not> take 3 rest = ''///'') \<and> take 2 rest = ''//'' then
        (let (authority, p) = (case str_cut CHR ''/'' (drop 2 rest) of
                                 (a, None) \<Rightarrow> (a, [])
                               | (a, Some p) \<Rightarrow> (a, CHR ''/'' # p))
         in case parse_authority authority of
              Inl e \<Rightarrow> Inl e
            | Inr (usr, h) \<Rightarrow>
                (case unescape p of
                   Inl e \<Rightarrow> Inl e
                 | Inr path \<Rightarrow> Inr (u\<lparr>user := usr, host := h, url_path := path\<rparr>)))
      else (let u' = (if scheme u \<noteq> [] \<and> take 1 rest = ''/'' then u\<lparr>omit_host := True\<rparr> else u)
            in case unescape rest of
                 Inl e \<Rightarrow> Inl e
               | Inr path \<Rightarrow> Inr (u'\<lparr>url_path := path\<rparr>)))"

definition parse :: "string \<Rightarrow> url_err + url" where
  "parse raw =
     (if list_ex is_ctl raw then Inl InvalidControlChar
      else if raw = ''*'' then Inr (empty_url\<lparr>url_path := ''*''\<rparr>)
      else (case get_scheme raw of
              Inl e \<Rightarrow> Inl e
            | Inr (sch, rest) \<Rightarrow>
                (let u = empty_url\<lparr>scheme := map ascii_lower sch\<rparr>
                 in if rest \<noteq> [] \<and> last rest = CHR ''?'' \<and> count_list rest CHR ''?'' = 1
                    then parse_rest (u\<lparr>force_query := True\<rparr>) (butlast rest)
                    else (case str_cut CHR ''?'' rest of
                            (r, None) \<Rightarrow> parse_rest u r
                          | (r, Some q) \<Rightarrow> parse_rest (u\<lparr>raw_query := q\<rparr>) r))))"

definition url_Parse :: "string \<Rightarrow> error + url" where
  "url_Parse raw =
     (case str_cut CHR ''#'' raw of
        (u, frag) \<Rightarrow>
          (case parse u of
             Inl e \<Rightarrow> Inl (UrlError ''parse'' u e)
           | Inr r \<Rightarrow>
               (case frag of
                  None \<Rightarrow> Inr r
                | Some [] \<Rightarrow> Inr r
                | Some f \<Rightarrow>
                    (case unescape f of
                       Inl e \<Rightarrow> Inl (UrlError ''parse'' raw e)
                     | Inr f' \<Rightarrow> Inr (r\<lparr>fragment := f'\<rparr>)))))"

declare empty_url_def [go_defs] ascii_lower_def [go_defs] get_scheme_def [go_defs]
  valid_userinfo_char_def [go_defs] should_escape_host_def [go_defs]
  valid_optional_port_def [go_defs] parse_host_def [go_defs] parse_authority_def [go_defs]
  parse_rest_def [go_defs] parse_def [go_defs] url_Parse_def [go_defs]

subsection \<open>The path ignores the query\<close>

definition href_path :: "string \<Rightarrow> string option" where
  "href_path href = (case url_Parse href of Inl _ \<Rightarrow> None | Inr u \<Rightarrow> Some (url_path u))"

text \<open>The bytes of a registered host name (RFC 3986 \<open>reg-name\<close> without escapes).\<close>

definition host_name_char :: "char \<Rightarrow> bool" where
  "host_name_char c \<longleftrightarrow> is_alpha c \<or> is_digit c \<or> c \<in> set ''-._~!$&'()*+,;=''"

lemma get_scheme_go_query:
  "CHR ''?'' \<notin> set base \<Longrightarrow>
   get_scheme_go acc (base @ CHR ''?'' # q) =
     (case get_scheme_go acc base of Inl e \<Rightarrow> Inl e | Inr (sch, r) \<Rightarrow> Inr (sch, r @ CHR ''?'' # q))"
  by (induction acc base rule: get_scheme_go.induct) (auto simp: is_alpha_def is_digit_def)

lemma get_scheme_go_no_qmark:
  "get_scheme_go acc s = Inr (sch, r) \<Longrightarrow> CHR ''?'' \<notin> set s \<Longrightarrow> CHR ''?'' \<notin> set acc \<Longrightarrow>
   CHR ''?'' \<notin> set r"
  by (induction acc s rule: get_scheme_go.induct) (auto split: if_splits)

text \<open>\<open>parse_rest\<close> reads only the scheme and the path of the URL it fills in.\<close>

lemma parse_rest_path_cong:
  assumes "scheme u = scheme u'" and "url_path u = url_path u'"
  shows "map_sum (\<lambda>_. ()) url_path (parse_rest u rest) = map_sum (\<lambda>_. ()) url_path (parse_rest u' rest)"
  using assms unfolding parse_rest_def Let_def
  by (simp split: prod.splits option.splits sum.splits)

lemma parse_query_path:
  assumes "CHR ''?'' \<notin> set base" and "\<not> list_ex is_ctl q"
  shows "map_sum (\<lambda>_. ()) url_path (parse (base @ CHR ''?'' # q))
         = map_sum (\<lambda>_. ()) url_path (parse base)"
proof -
  have ctl: "list_ex is_ctl (base @ CHR ''?'' # q) = list_ex is_ctl base"
    using assms(2) by (simp add: is_ctl_def)
  have star: "base @ CHR ''?'' # q \<noteq> ''*''" by (cases base) auto
  show ?thesis
  proof (cases "list_ex is_ctl base")
    case True
    then show ?thesis using ctl by (simp add: parse_def)
  next
    case noctl: False
    show ?thesis
    proof (cases "get_scheme base")
      case (Inl e)
      then have "parse base = Inl e" "parse (base @ CHR ''?'' # q) = Inl e"
        using noctl ctl star assms(1)
        by (auto simp: parse_def get_scheme_def get_scheme_go_query is_alpha_def is_digit_def)
      then show ?thesis by simp
    next
      case (Inr sr)
      obtain sch r where sr: "sr = (sch, r)" by (cases sr)
      let ?u = "empty_url\<lparr>scheme := map ascii_lower sch\<rparr>"
      have rq: "CHR ''?'' \<notin> set r"
        using Inr sr assms(1) by (auto simp: get_scheme_def dest: get_scheme_go_no_qmark)
      have ext: "get_scheme (base @ CHR ''?'' # q) = Inr (sch, r @ CHR ''?'' # q)"
        using Inr sr assms(1) by (simp add: get_scheme_def get_scheme_go_query)
      have pb: "parse base = parse_rest ?u r"
      proof (cases "base = ''*''")
        case True
        then have "sch = [] \<and> r = ''*''" using Inr sr by (simp add: get_scheme_def is_alpha_def is_digit_def)
        then show ?thesis using True by (simp add: parse_def parse_rest_def empty_url_def is_ctl_def)
      next
        case False
        then show ?thesis using noctl Inr sr rq
          by (simp add: parse_def count_list_0_iff str_cut_None Let_def split: if_splits)
      qed
      have pq: "map_sum (\<lambda>_. ()) url_path (parse (base @ CHR ''?'' # q))
                = map_sum (\<lambda>_. ()) url_path (parse_rest ?u r)"
      proof (cases "q = []")
        case True
        then have "parse (base @ CHR ''?'' # q) = parse_rest (?u\<lparr>force_query := True\<rparr>) r"
          using noctl ctl star ext rq by (simp add: parse_def count_list_0_iff)
        then show ?thesis by (simp add: parse_rest_path_cong)
      next
        case False
        have cnt: "count_list (r @ CHR ''?'' # q) CHR ''?'' = Suc (count_list q CHR ''?'')"
          using rq by (simp add: count_list_0_iff)
        have "\<not> (last q = CHR ''?'' \<and> count_list q CHR ''?'' = 0)"
          using False by (auto simp: count_list_0_iff dest: last_in_set)
        then have "parse (base @ CHR ''?'' # q) = parse_rest (?u\<lparr>raw_query := q\<rparr>) r"
          using noctl ctl star ext rq False by (auto simp add: parse_def str_cut_append Let_def cnt)
        then show ?thesis by (simp add: parse_rest_path_cong)
      qed
      show ?thesis using pb pq by simp
    qed
  qed
qed

lemma map_sum_unit_path_eq:
  "map_sum (\<lambda>_. ()) url_path x = map_sum (\<lambda>_. ()) url_path y \<Longrightarrow>
   (case x of Inl _ \<Rightarrow> None | Inr u \<Rightarrow> Some (url_path u)) =
   (case y of Inl _ \<Rightarrow> None | Inr u \<Rightarrow> Some (url_path u))"
  by (cases x; cases y) auto

subsection \<open>Absolute and relative links\<close>

lemma host_name_char_simps:
  "host_name_char c \<Longrightarrow> \<not> should_escape_host c \<and> \<not> is_ctl c
     \<and> c \<noteq> CHR ''%'' \<and> c \<noteq> CHR ''['' \<and> c \<noteq> CHR '':'' \<and> c \<noteq> CHR ''@''
     \<and> c \<noteq> CHR ''/'' \<and> c \<noteq> CHR ''?'' \<and> c \<noteq> CHR ''#''"
  by (auto simp: host_name_char_def should_escape_host_def is_alpha_def is_digit_def is_ctl_def)

lemma unescape_host_plain: "list_all host_name_char h \<Longrightarrow> unescape_host z h = Inr h"
  by (induction h) (auto dest: host_name_char_simps)

lemma parse_host_plain:
  assumes "list_all host_name_char h"
  shows "parse_host h = Inr h"
proof -
  have nc: "\<forall>c\<in>set h. c \<noteq> CHR ''['' \<and> c \<noteq> CHR '':''"
    using assms by (auto simp: list_all_iff dest: host_name_char_simps)
  then have "take 1 h \<noteq> ''[''" by (cases h) auto
  moreover have "CHR '':'' \<notin> set h" using nc by blast
  ultimately show ?thesis using assms by (simp add: parse_host_def unescape_host_plain)
qed

lemma parse_authority_plain:
  assumes "list_all host_name_char h"
  shows "parse_authority h = Inr (None, h)"
proof -
  have "CHR ''@'' \<notin> set h" using assms by (auto simp: list_all_iff dest: host_name_char_simps)
  then show ?thesis using assms by (simp add: parse_authority_def parse_host_plain)
qed

text \<open>A relative link to a path (one slash, then not a second one) parses to that path.\<close>

lemma parse_relative:
  assumes "p = CHR ''/'' # p'" and "take 1 p' \<noteq> ''/''"
    and "CHR ''?'' \<notin> set p" and "\<not> list_ex is_ctl p"
  shows "parse p = (case unescape p of Inl e \<Rightarrow> Inl e | Inr q \<Rightarrow> Inr (empty_url\<lparr>url_path := q\<rparr>))"
proof -
  have gs: "get_scheme p = Inr ([], p)" using assms(1) by (simp add: get_scheme_def is_alpha_def is_digit_def)
  have lq: "last p \<noteq> CHR ''?''" using assms(1,3) last_in_set [of p] by auto
  have t2: "take 2 p \<noteq> ''//''" using assms(1,2) by (cases p') auto
  have star: "p \<noteq> ''*''" using assms(1) by auto
  have "parse p = parse_rest (empty_url\<lparr>scheme := []\<rparr>) p"
    using gs assms(4) star lq str_cut_None [OF assms(3)] by (simp add: parse_def Let_def)
  also have "\<dots> = (case unescape p of Inl e \<Rightarrow> Inl e | Inr q \<Rightarrow> Inr (empty_url\<lparr>url_path := q\<rparr>))"
    using assms(1) t2 by (simp add: parse_rest_def empty_url_def split: sum.splits)
  finally show ?thesis .
qed

text \<open>The same path behind \<open>https://\<close> and a registered host name parses to the same
  path, with the scheme and the host recorded.\<close>

lemma parse_absolute:
  assumes "list_all host_name_char h" and "p = CHR ''/'' # p'"
    and "CHR ''?'' \<notin> set p" and "\<not> list_ex is_ctl p"
  shows "parse (''https://'' @ h @ p) =
           (case unescape p of
              Inl e \<Rightarrow> Inl e
            | Inr q \<Rightarrow> Inr (empty_url\<lparr>scheme := ''https'', host := h, url_path := q\<rparr>))"
proof -
  have hc: "\<forall>c\<in>set h. \<not> is_ctl c \<and> c \<noteq> CHR ''?'' \<and> c \<noteq> CHR ''/''"
    using assms(1) by (auto simp: list_all_iff dest: host_name_char_simps)
  have gs: "get_scheme (''https://'' @ h @ p) = Inr (''https'', ''//'' @ h @ p)"
    by (simp add: get_scheme_def is_alpha_def is_digit_def)
  have ctl: "\<not> list_ex is_ctl (''https://'' @ h @ p)"
    using hc assms(4) by (auto simp: list_ex_iff is_ctl_def)
  have nq: "CHR ''?'' \<notin> set (''//'' @ h @ p)" using hc assms(3) by auto
  have lq: "last (''//'' @ h @ p) \<noteq> CHR ''?''" using nq last_in_set [of "''//'' @ h @ p"] by auto
  have cut: "str_cut CHR ''/'' (h @ p) = (h, Some p')"
    using hc assms(2) str_cut_append [of "CHR ''/''" h p'] by auto
  have star: "''https://'' @ h @ p \<noteq> ''*''" by simp
  have low: "map ascii_lower ''https'' = ''https''" by (simp add: ascii_lower_def)
  have "parse (''https://'' @ h @ p) = parse_rest (empty_url\<lparr>scheme := ''https''\<rparr>) (''//'' @ h @ p)"
    using gs ctl star low lq str_cut_None [OF nq] by (simp add: parse_def Let_def del: append_Cons)
  also have "\<dots> = (case unescape p of
              Inl e \<Rightarrow> Inl e
            | Inr q \<Rightarrow> Inr (empty_url\<lparr>scheme := ''https'', host := h, url_path := q\<rparr>))"
    using cut assms(2) by (simp add: parse_rest_def parse_authority_plain [OF assms(1)] empty_url_def
        split: sum.splits)
  finally show ?thesis .
qed

text \<open>C21: The identifier the scraper derives from a link (the path of \<open>url.Parse\<close>) is the
  same whatever query string and fragment the link carries: only the part before the
  first \<open>?\<close> decides it (the query may hold no control byte and the fragment must be well
  escaped, else the link does not parse at all).\<close>

theorem href_path_query_fragment:
  assumes "CHR ''?'' \<notin> set base" and "CHR ''#'' \<notin> set base" and "CHR ''#'' \<notin> set q"
    and "\<not> list_ex is_ctl q" and "\<not> isl (unescape f)"
  shows "href_path (base @ CHR ''?'' # q @ CHR ''#'' # f) = href_path base"
proof -
  have cut1: "str_cut CHR ''#'' (base @ CHR ''?'' # q @ CHR ''#'' # f) = (base @ CHR ''?'' # q, Some f)"
    using assms(2,3) str_cut_append [of "CHR ''#''" "base @ CHR ''?'' # q" f] by simp
  have cut2: "str_cut CHR ''#'' base = (base, None)" using assms(2) by (rule str_cut_None)
  have eq: "map_sum (\<lambda>_. ()) url_path (parse (base @ CHR ''?'' # q))
            = map_sum (\<lambda>_. ()) url_path (parse base)"
    using assms(1,4) by (rule parse_query_path)
  obtain f' where f': "f = [] \<or> unescape f = Inr f'" using assms(5) by (cases "unescape f") auto
  have "href_path (base @ CHR ''?'' # q @ CHR ''#'' # f)
        = (case parse (base @ CHR ''?'' # q) of Inl _ \<Rightarrow> None | Inr u \<Rightarrow> Some (url_path u))"
  proof (cases "f = []")
    case True
    show ?thesis using cut1 unfolding True by (simp add: href_path_def url_Parse_def split: sum.splits)
  next
    case False
    then obtain a fs where f: "f = a # fs" by (cases f) auto
    have u: "unescape (a # fs) = Inr f'" using f' False f by simp
    show ?thesis using cut1 u unfolding f
      by (simp add: href_path_def url_Parse_def del: unescape.simps split: sum.splits)
  qed
  also have "\<dots> = (case parse base of Inl _ \<Rightarrow> None | Inr u \<Rightarrow> Some (url_path u))"
    using eq by (rule map_sum_unit_path_eq)
  also have "\<dots> = href_path base"
    by (simp add: href_path_def url_Parse_def cut2 split: sum.splits)
  finally show ?thesis .
qed

theorem href_path_query_fragment_witness:
  "href_path (''https://example.com/marketplace/item/42'' @ CHR ''?'' # ''ref=feed'' @ CHR ''#'' # [])
     = href_path ''https://example.com/marketplace/item/42''
   \<and> href_path ''https://example.com/marketplace/item/42'' = Some ''/marketplace/item/42''"
proof -
  have h: "CHR ''?'' \<notin> set ''https://example.com/marketplace/item/42''"
    "CHR ''#'' \<notin> set ''https://example.com/marketplace/item/42''" "CHR ''#'' \<notin> set ''ref=feed''"
    "\<not> list_ex is_ctl ''ref=feed''" "\<not> isl (unescape [])"
    by (simp_all add: is_ctl_def)
  have p: "href_path ''https://example.com/marketplace/item/42'' = Some ''/marketplace/item/42''"
    by (simp add: href_path_def go_defs)
  show ?thesis using href_path_query_fragment [OF h] p by simp
qed


text \<open>C22: The identifier of a listing does not depend on whether its link is relative or
  absolute: behind \<open>https://\<close> and a registered host name, a path (one slash, not
  two) has the same \<open>url.Parse\<close> path as on its own, its percent-decoding, so the
  two forms of the same link are one entry of \<open>Processed\<close>.\<close>

theorem href_path_absolute:
  assumes "list_all host_name_char h" and "p = CHR ''/'' # p'" and "take 1 p' \<noteq> ''/''"
    and "CHR ''?'' \<notin> set p" and "CHR ''#'' \<notin> set p" and "\<not> list_ex is_ctl p"
  shows "href_path (''https://'' @ h @ p) = href_path p
         \<and> href_path p = (case unescape p of Inl _ \<Rightarrow> None | Inr q \<Rightarrow> Some q)"
proof -
  have nh: "CHR ''#'' \<notin> set (''https://'' @ h @ p)"
    using assms(1,5) by (auto simp: list_all_iff dest: host_name_char_simps)
  have r: "href_path p = (case unescape p of Inl _ \<Rightarrow> None | Inr q \<Rightarrow> Some q)"
    using parse_relative [OF assms(2,3,4,6)] str_cut_None [OF assms(5)]
    by (simp add: href_path_def url_Parse_def split: sum.splits)
  have a: "href_path (''https://'' @ h @ p) = (case unescape p of Inl _ \<Rightarrow> None | Inr q \<Rightarrow> Some q)"
    using parse_absolute [OF assms(1,2,4,6)] str_cut_None [OF nh]
    by (simp add: href_path_def url_Parse_def del: append_Cons split: sum.splits)
  from a r show ?thesis by simp
qed

theorem href_path_absolute_witness:
  "href_path (''https://'' @ ''www.facebook.com'' @ ''/marketplace/item/123/'') = href_path ''/marketplace/item/123/''
   \<and> href_path ''/marketplace/item/123/'' = Some ''/marketplace/item/123/''"
proof -
  have h: "list_all host_name_char ''www.facebook.com''"
    "''/marketplace/item/123/'' = CHR ''/'' # ''marketplace/item/123/''"
    "take 1 ''marketplace/item/123/'' \<noteq> ''/''"
    "CHR ''?'' \<notin> set ''/marketplace/item/123/''" "CHR ''#'' \<notin> set ''/marketplace/item/123/''"
    "\<not> list_ex is_ctl ''/marketplace/item/123/''"
    by (simp_all add: host_name_char_def is_alpha_def is_digit_def is_ctl_def)
  have u: "unescape ''/marketplace/item/123/'' = Inr ''/marketplace/item/123/''" by simp
  from href_path_absolute [OF h] u show ?thesis by simp
qed

end
