(* ===== verification/Fetch.thy ===== *)
theory Fetch
  imports Price Url
begin

text \<open>
  \<open>Scraper.fetchMoreProducts\<close> of \<open>src/scraper.go\<close> and the \<open>Product\<close> struct of
  \<open>src/product.go\<close>. The selenium WebDriver is the environment: what its calls return
  is given as data, in the order the code makes the calls. A page is the result of
  \<open>Driver.FindElements\<close>; each listing element carries the result of its
  \<open>GetAttribute("href")\<close> and of its \<open>FindElements\<close>, whose elements carry the
  results of \<open>GetAttribute("innerText")\<close>. The \<open>Processed\<close> map is threaded through
  and returned in every outcome, because a Go map is shared: the code's updates survive
  an error return. The theory proves that a batch holds fresh, pairwise distinct
  identifiers, that \<open>Processed\<close> only grows, how the text fragments fill the record,
  and the error and panic paths.
\<close>

record product =
  Price :: u64
  Currency :: string
  Name :: string
  Location :: string
  Link :: url

definition zero_product :: product where
  "zero_product = \<lparr>Price = 0, Currency = [], Name = [], Location = [], Link = empty_url\<rparr>"

text \<open>The identifier of a product: the path of its link, the key of \<open>Processed\<close>.\<close>

definition link_path :: "product \<Rightarrow> string" where
  "link_path p = url_path (Link p)"

record listing_elem =
  href_attr :: "error + string"
  item_container :: "error + (error + string) list"

type_synonym page = "error + listing_elem list"

type_synonym processed = "string \<rightharpoonup> bool"

text \<open>\<open>i.Processed[k]\<close>: a Go map read gives the zero value \<open>false\<close> for a missing key.\<close>

definition processed_get :: "processed \<Rightarrow> string \<Rightarrow> bool" where
  "processed_get m k = (case m k of None \<Rightarrow> False | Some b \<Rightarrow> b)"

subsection \<open>One listing\<close>

text \<open>The inner loop \<open>for i, v := range itemContainer\<close>: index 0 is the price, 1 the
  name, 2 the location; \<open>innerText\<close> is read for every element, later ones included.\<close>

fun fill_fields :: "product \<Rightarrow> nat \<Rightarrow> (error + string) list \<Rightarrow> error + product" where
  "fill_fields p i [] = Inr p"
| "fill_fields p i (t # ts) =
     (case t of
        Inl err \<Rightarrow> Inl err
      | Inr text \<Rightarrow>
          (if i = 0 then
             (case extractFirstCurrency text of
                Inl err \<Rightarrow> Inl err
              | Inr (currency, price) \<Rightarrow>
                  fill_fields (p\<lparr>Currency := currency, Price := price\<rparr>) (Suc i) ts)
           else if i = 1 then fill_fields (p\<lparr>Name := text\<rparr>) (Suc i) ts
           else if i = 2 then fill_fields (p\<lparr>Location := text\<rparr>) (Suc i) ts
           else fill_fields p (Suc i) ts))"

text \<open>What one iteration of the listing loop does.\<close>

datatype listing_outcome =
    Skip
  | Append product processed
  | ReturnNil error
  | ReturnProducts error
  | PanicAt panic

definition process_listing :: "processed \<Rightarrow> listing_elem \<Rightarrow> listing_outcome" where
  "process_listing m v =
     (case href_attr v of
        Inl err \<Rightarrow> ReturnNil err
      | Inr href \<Rightarrow>
          (case url_Parse href of
             Inl _ \<Rightarrow> PanicAt NilPointerDereference
           | Inr u \<Rightarrow>
               (if processed_get m (url_path u) then Skip
                else (case item_container v of
                        Inl err \<Rightarrow> ReturnProducts err
                      | Inr texts \<Rightarrow>
                          (case fill_fields (zero_product\<lparr>Link := u\<rparr>) 0 texts of
                             Inl err \<Rightarrow> ReturnProducts err
                           | Inr p \<Rightarrow> Append p (m(url_path u \<mapsto> True)))))))"

subsection \<open>The batch\<close>

datatype fetch_result =
    FetchOk "product list"
  | FetchErr "product list" error
  | FetchPanic panic

fun fetch_loop :: "processed \<Rightarrow> product list \<Rightarrow> listing_elem list \<Rightarrow> fetch_result \<times> processed" where
  "fetch_loop m acc [] = (FetchOk acc, m)"
| "fetch_loop m acc (v # vs) =
     (case process_listing m v of
        Skip \<Rightarrow> fetch_loop m acc vs
      | Append p m' \<Rightarrow> fetch_loop m' (acc @ [p]) vs
      | ReturnNil err \<Rightarrow> (FetchErr [] err, m)
      | ReturnProducts err \<Rightarrow> (FetchErr acc err, m)
      | PanicAt pn \<Rightarrow> (FetchPanic pn, m))"

definition fetchMoreProducts :: "page \<Rightarrow> processed \<Rightarrow> fetch_result \<times> processed" where
  "fetchMoreProducts pg m =
     (case pg of
        Inl err \<Rightarrow> (FetchErr [] err, m)
      | Inr listings \<Rightarrow> fetch_loop m [] listings)"

definition mark_all :: "processed \<Rightarrow> product list \<Rightarrow> processed" where
  "mark_all m ps = fold (\<lambda>p m. m(link_path p \<mapsto> True)) ps m"

declare zero_product_def [go_defs] link_path_def [go_defs] processed_get_def [go_defs]
  process_listing_def [go_defs] fetchMoreProducts_def [go_defs]

subsection \<open>Lemmas on one listing\<close>

lemma fill_fields_Link: "fill_fields p i ts = Inr p' \<Longrightarrow> Link p' = Link p"
  by (induction p i ts rule: fill_fields.induct) (auto split: sum.splits if_splits prod.splits)

lemma fill_fields_beyond: "2 < i \<Longrightarrow> fill_fields p i (map Inr ts) = Inr p"
  by (induction ts arbitrary: i) auto

lemma process_listing_Append:
  assumes "process_listing m v = Append p m'"
  shows "m' = m(link_path p \<mapsto> True) \<and> \<not> processed_get m (link_path p)"
proof -
  from assms obtain href u texts where "href_attr v = Inr href" "url_Parse href = Inr u"
    and fresh: "\<not> processed_get m (url_path u)" and "item_container v = Inr texts"
    and ff: "fill_fields (zero_product\<lparr>Link := u\<rparr>) 0 texts = Inr p"
    and m': "m' = m(url_path u \<mapsto> True)"
    by (auto simp: process_listing_def split: sum.splits if_splits)
  from ff have "Link p = u" by (auto dest: fill_fields_Link)
  with fresh m' show ?thesis by (simp add: link_path_def)
qed

lemma processed_get_upd: "processed_get (m(k \<mapsto> True)) k' \<longleftrightarrow> processed_get m k' \<or> k' = k"
  by (simp add: processed_get_def)

subsection \<open>Lemmas on the batch\<close>

lemma mark_all_Cons: "mark_all m (p # ps) = mark_all (m(link_path p \<mapsto> True)) ps"
  by (simp add: mark_all_def)

lemma processed_get_mark_all:
  "processed_get (mark_all m ps) k \<longleftrightarrow> processed_get m k \<or> k \<in> link_path ` set ps"
  by (induction ps arbitrary: m) (auto simp: mark_all_def processed_get_upd)

lemma mark_all_values: "mark_all m ps k = m k \<or> mark_all m ps k = Some True"
proof (induction ps arbitrary: m)
  case Nil
  then show ?case by (simp add: mark_all_def)
next
  case (Cons p ps)
  have "mark_all (m(link_path p \<mapsto> True)) ps k = (m(link_path p \<mapsto> True)) k
        \<or> mark_all (m(link_path p \<mapsto> True)) ps k = Some True" by (rule Cons.IH)
  then show ?case by (auto simp: mark_all_Cons split: if_splits)
qed

text \<open>
  The loop over the listings adds to the products it has collected a list of new
  products with pairwise distinct identifiers, none of them processed before, and
  marks exactly those as processed, whatever way it ends (on \<open>return nil, err\<close> the
  collected products are dropped, on a panic nothing is returned).
\<close>

lemma fetch_loop_new:
  "fetch_loop m acc ls = (r, m') \<Longrightarrow>
   \<exists>new. m' = mark_all m new \<and> distinct (map link_path new)
        \<and> (\<forall>p\<in>set new. \<not> processed_get m (link_path p))
        \<and> (case r of FetchOk ps \<Rightarrow> ps = acc @ new
             | FetchErr ps _ \<Rightarrow> ps = acc @ new \<or> ps = []
             | FetchPanic _ \<Rightarrow> True)"
proof (induction m acc ls arbitrary: r m' rule: fetch_loop.induct)
  case (1 m acc)
  then show ?case by (intro exI [of _ "[]"]) (auto simp: mark_all_def)
next
  case (2 m acc v vs)
  show ?case
  proof (cases "process_listing m v")
    case Skip
    with 2 show ?thesis by simp
  next
    case (Append p m1)
    then have m1: "m1 = m(link_path p \<mapsto> True)" and fresh: "\<not> processed_get m (link_path p)"
      using process_listing_Append by blast+
    from Append "2.prems" have "fetch_loop m1 (acc @ [p]) vs = (r, m')" by simp
    then obtain new where IH: "m' = mark_all m1 new" "distinct (map link_path new)"
        "\<forall>q\<in>set new. \<not> processed_get m1 (link_path q)"
        "case r of FetchOk ps \<Rightarrow> ps = (acc @ [p]) @ new
           | FetchErr ps _ \<Rightarrow> ps = (acc @ [p]) @ new \<or> ps = [] | FetchPanic _ \<Rightarrow> True"
      using "2.IH"(2) [OF Append] by blast
    show ?thesis
    proof (intro exI [of _ "p # new"] conjI)
      show "m' = mark_all m (p # new)" using IH(1) m1 by (simp add: mark_all_Cons)
      show "distinct (map link_path (p # new))" using IH(2,3) m1 by (auto simp: processed_get_upd)
      show "\<forall>q\<in>set (p # new). \<not> processed_get m (link_path q)"
        using IH(3) m1 fresh by (auto simp: processed_get_upd)
      show "case r of FetchOk ps \<Rightarrow> ps = acc @ p # new
              | FetchErr ps _ \<Rightarrow> ps = acc @ p # new \<or> ps = [] | FetchPanic _ \<Rightarrow> True"
        using IH(4) by (simp split: fetch_result.splits)
    qed
  next
    case (ReturnNil e)
    with "2.prems" show ?thesis by (intro exI [of _ "[]"]) (auto simp: mark_all_def)
  next
    case (ReturnProducts e)
    with "2.prems" show ?thesis by (intro exI [of _ "[]"]) (auto simp: mark_all_def)
  next
    case (PanicAt pn)
    with "2.prems" show ?thesis by (intro exI [of _ "[]"]) (auto simp: mark_all_def)
  qed
qed

lemma fetchMoreProducts_new:
  "fetchMoreProducts pg m = (r, m') \<Longrightarrow>
   \<exists>new. m' = mark_all m new \<and> distinct (map link_path new)
        \<and> (\<forall>p\<in>set new. \<not> processed_get m (link_path p))
        \<and> (case r of FetchOk ps \<Rightarrow> ps = new
             | FetchErr ps _ \<Rightarrow> ps = new \<or> ps = []
             | FetchPanic _ \<Rightarrow> True)"
proof (cases pg)
  case (Inl e)
  assume "fetchMoreProducts pg m = (r, m')"
  with Inl show ?thesis by (intro exI [of _ "[]"]) (auto simp: fetchMoreProducts_def mark_all_def)
next
  case (Inr ls)
  assume "fetchMoreProducts pg m = (r, m')"
  with Inr have "fetch_loop m [] ls = (r, m')" by (simp add: fetchMoreProducts_def)
  from fetch_loop_new [OF this] show ?thesis by (simp only: append_Nil)
qed

lemma fetch_loop_panic:
  "fetch_loop m acc ls = (FetchPanic pn, m') \<Longrightarrow> pn = NilPointerDereference"
  by (induction m acc ls rule: fetch_loop.induct)
     (auto simp: process_listing_def split: listing_outcome.splits sum.splits if_splits)

lemma fetchMoreProducts_panic:
  "fetchMoreProducts pg m = (FetchPanic pn, m') \<Longrightarrow> pn = NilPointerDereference"
  by (auto simp: fetchMoreProducts_def split: sum.splits dest: fetch_loop_panic)

lemma fetch_loop_append:
  "fetch_loop m acc (ls @ vs) =
     (case fetch_loop m acc ls of
        (FetchOk acc', m') \<Rightarrow> fetch_loop m' acc' vs
      | other \<Rightarrow> other)"
  by (induction m acc ls rule: fetch_loop.induct) (auto split: listing_outcome.splits)

subsection \<open>Properties of \<open>fetchMoreProducts\<close>\<close>

text \<open>C5: A successful batch of \<open>fetchMoreProducts\<close> holds products with pairwise
  distinct identifiers, none of which was processed before the call, and all of which
  are marked processed after it: the map is written before the product is handed over.\<close>

theorem fetchMoreProducts_fresh:
  assumes "fetchMoreProducts pg m = (FetchOk ps, m')"
  shows "distinct (map link_path ps)
         \<and> (\<forall>p\<in>set ps. \<not> processed_get m (link_path p) \<and> processed_get m' (link_path p))"
proof -
  obtain new where "m' = mark_all m new" "distinct (map link_path new)"
      "\<forall>p\<in>set new. \<not> processed_get m (link_path p)" "ps = new"
    using fetchMoreProducts_new [OF assms] by auto
  then show ?thesis by (simp add: processed_get_mark_all)
qed


theorem fetchMoreProducts_fresh_witness:
  "fetchMoreProducts (Inr [\<lparr>href_attr = Inr ''/item/1'', item_container = Inr [Inr ''FREE'', Inr ''Bike'']\<rparr>,
                           \<lparr>href_attr = Inr ''/item/1?x=2'', item_container = Inr [Inr ''$3'']\<rparr>]) Map.empty
     = (FetchOk [zero_product\<lparr>Name := ''Bike'', Link := empty_url\<lparr>url_path := ''/item/1''\<rparr>\<rparr>],
        [''/item/1'' \<mapsto> True])
   \<and> distinct (map link_path [zero_product\<lparr>Name := ''Bike'', Link := empty_url\<lparr>url_path := ''/item/1''\<rparr>\<rparr>])"
proof -
  have h: "fetchMoreProducts (Inr [\<lparr>href_attr = Inr ''/item/1'', item_container = Inr [Inr ''FREE'', Inr ''Bike'']\<rparr>,
                           \<lparr>href_attr = Inr ''/item/1?x=2'', item_container = Inr [Inr ''$3'']\<rparr>]) Map.empty
     = (FetchOk [zero_product\<lparr>Name := ''Bike'', Link := empty_url\<lparr>url_path := ''/item/1''\<rparr>\<rparr>],
        [''/item/1'' \<mapsto> True])"
    by (simp add: go_defs)
  show ?thesis using h fetchMoreProducts_fresh [OF h] by blast
qed

text \<open>C23: \<open>Processed\<close> only grows, whatever the outcome of \<open>fetchMoreProducts\<close>
  (errors and panics included): no entry is removed or changed except to \<open>true\<close>, and
  every identifier processed before is processed after.\<close>

theorem fetchMoreProducts_processed_grows:
  assumes "fetchMoreProducts pg m = (r, m')"
  shows "(\<forall>k. m' k = m k \<or> m' k = Some True) \<and> (\<forall>k. processed_get m k \<longrightarrow> processed_get m' k)"
proof -
  obtain new where "m' = mark_all m new" using fetchMoreProducts_new [OF assms] by blast
  then show ?thesis using mark_all_values processed_get_mark_all by blast
qed


theorem fetchMoreProducts_processed_grows_witness:
  "fetchMoreProducts (Inl (DriverError ''no such element'')) [''/item/1'' \<mapsto> True]
     = (FetchErr [] (DriverError ''no such element''), [''/item/1'' \<mapsto> True])
   \<and> processed_get [''/item/1'' \<mapsto> True] ''/item/1''"
proof -
  have h: "fetchMoreProducts (Inl (DriverError ''no such element'')) [''/item/1'' \<mapsto> True]
     = (FetchErr [] (DriverError ''no such element''), [''/item/1'' \<mapsto> True])"
    by (simp add: fetchMoreProducts_def)
  have "processed_get [''/item/1'' \<mapsto> True] ''/item/1''" by (simp add: processed_get_def)
  then show ?thesis using h fetchMoreProducts_processed_grows [OF h] by blast
qed

text \<open>C25: The text fragments of a listing fill the product by position: the first is
  parsed as the price (its error aborts), the second is the name, the third the location;
  further fragments are ignored and missing ones leave the field at its zero value.\<close>

theorem fill_fields_texts:
  "fill_fields p 0 (map Inr ts) =
     (case ts of
        [] \<Rightarrow> Inr p
      | t0 # rest \<Rightarrow>
          (case extractFirstCurrency t0 of
             Inl err \<Rightarrow> Inl err
           | Inr (c, v) \<Rightarrow>
               Inr (p\<lparr>Currency := c, Price := v,
                      Name := (case rest of [] \<Rightarrow> Name p | t1 # _ \<Rightarrow> t1),
                      Location := (case rest of _ # t2 # _ \<Rightarrow> t2 | _ \<Rightarrow> Location p)\<rparr>)))"
proof (cases ts)
  case Nil
  then show ?thesis by simp
next
  case (Cons t0 rest)
  show ?thesis
  proof (cases "extractFirstCurrency t0")
    case (Inl e)
    with Cons show ?thesis by simp
  next
    case (Inr cv)
    obtain c v where cv: "cv = (c, v)" by (cases cv)
    show ?thesis
    proof (cases rest)
      case Nil
      with Cons Inr cv show ?thesis by simp
    next
      case (Cons t1 rest')
      with \<open>ts = t0 # rest\<close> Inr cv show ?thesis
        by (cases rest') (simp_all add: fill_fields_beyond)
    qed
  qed
qed

text \<open>C24: A listing whose identifier is already processed is skipped before its text is
  read: the batch goes on as if the listing were not on the page.\<close>

theorem fetch_loop_skips_processed:
  assumes "href_attr v = Inr h" and "url_Parse h = Inr u" and "processed_get m (url_path u)"
  shows "fetch_loop m acc (v # vs) = fetch_loop m acc vs"
  using assms by (simp add: process_listing_def)


theorem fetch_loop_skips_processed_witness:
  "href_attr \<lparr>href_attr = Inr ''/item/1'', item_container = Inl (DriverError ''stale'')\<rparr> = Inr ''/item/1''
   \<and> url_Parse ''/item/1'' = Inr (empty_url\<lparr>url_path := ''/item/1''\<rparr>)
   \<and> processed_get [''/item/1'' \<mapsto> True] ''/item/1''
   \<and> fetch_loop [''/item/1'' \<mapsto> True] [] [\<lparr>href_attr = Inr ''/item/1'', item_container = Inl (DriverError ''stale'')\<rparr>]
       = (FetchOk [], [''/item/1'' \<mapsto> True])"
proof -
  have h: "href_attr \<lparr>href_attr = Inr ''/item/1'', item_container = Inl (DriverError ''stale'')\<rparr> = Inr ''/item/1''"
    "url_Parse ''/item/1'' = Inr (empty_url\<lparr>url_path := ''/item/1''\<rparr>)"
    "processed_get [''/item/1'' \<mapsto> True] (url_path (empty_url\<lparr>url_path := ''/item/1''\<rparr>))"
    by (simp_all add: go_defs)
  show ?thesis using h fetch_loop_skips_processed [OF h, of "[]" "[]"] by simp
qed

text \<open>C26: A link that \<open>url.Parse\<close> rejects makes \<open>fetchMoreProducts\<close> panic with a nil
  pointer dereference: the code logs the error and goes on to read \<open>u.Path\<close> of the nil
  \<open>*url.URL\<close>, instead of skipping the listing.\<close>

theorem fetchMoreProducts_bad_href_panics:
  assumes "fetch_loop m [] ls = (FetchOk ps, m1)"
    and "href_attr v = Inr h" and "url_Parse h = Inl e"
  shows "fetchMoreProducts (Inr (ls @ v # vs)) m = (FetchPanic NilPointerDereference, m1)"
  using assms by (simp add: fetchMoreProducts_def fetch_loop_append process_listing_def)


theorem fetchMoreProducts_bad_href_panics_witness:
  "fetch_loop Map.empty [] [] = (FetchOk [], Map.empty)
   \<and> url_Parse ''/item/%zz'' = Inl (UrlError ''parse'' ''/item/%zz'' (InvalidEscape ''%zz''))
   \<and> fetchMoreProducts (Inr [\<lparr>href_attr = Inr ''/item/%zz'', item_container = Inr []\<rparr>]) Map.empty
       = (FetchPanic NilPointerDereference, Map.empty)"
proof -
  have h: "fetch_loop Map.empty [] [] = (FetchOk [], Map.empty)"
    "href_attr \<lparr>href_attr = Inr ''/item/%zz'', item_container = Inr []\<rparr> = Inr ''/item/%zz''"
    "url_Parse ''/item/%zz'' = Inl (UrlError ''parse'' ''/item/%zz'' (InvalidEscape ''%zz''))"
    by (simp_all add: go_defs)
  show ?thesis using h fetchMoreProducts_bad_href_panics [OF h, of "[]"] by simp
qed

text \<open>C27: A failed price on a listing aborts the whole batch with that error; the
  products extracted before it are returned with the error (the caller drops them) but
  stay marked as processed, so they are never delivered.\<close>

theorem fetchMoreProducts_price_error_aborts:
  assumes "fetch_loop m [] ls = (FetchOk ps, m1)"
    and "href_attr v = Inr h" and "url_Parse h = Inr u" and "\<not> processed_get m1 (url_path u)"
    and "item_container v = Inr (Inr t0 # texts)" and "extractFirstCurrency t0 = Inl e"
  shows "fetchMoreProducts (Inr (ls @ v # vs)) m = (FetchErr ps e, m1)
         \<and> (\<forall>p\<in>set ps. processed_get m1 (link_path p))"
proof -
  have "fetchMoreProducts (Inr (ls @ v # vs)) m = (FetchErr ps e, m1)"
    using assms zero_product_def by (simp add: fetchMoreProducts_def fetch_loop_append process_listing_def)
  moreover have "\<forall>p\<in>set ps. processed_get m1 (link_path p)"
  proof -
    obtain new where "m1 = mark_all m new" "ps = [] @ new"
      using fetch_loop_new [OF assms(1)] by auto
    then show ?thesis by (simp add: processed_get_mark_all)
  qed
  ultimately show ?thesis by blast
qed


theorem fetchMoreProducts_price_error_aborts_witness:
  "fetchMoreProducts (Inr [\<lparr>href_attr = Inr ''/item/1'', item_container = Inr [Inr ''FREE'']\<rparr>,
                           \<lparr>href_attr = Inr ''/item/2'', item_container = Inr [Inr ''12'']\<rparr>]) Map.empty
     = (FetchErr [zero_product\<lparr>Link := empty_url\<lparr>url_path := ''/item/1''\<rparr>\<rparr>] (PriceFormat ''12''),
        [''/item/1'' \<mapsto> True])
   \<and> processed_get [''/item/1'' \<mapsto> True] ''/item/1''"
proof -
  have h: "fetch_loop Map.empty [] [\<lparr>href_attr = Inr ''/item/1'', item_container = Inr [Inr ''FREE'']\<rparr>]
        = (FetchOk [zero_product\<lparr>Link := empty_url\<lparr>url_path := ''/item/1''\<rparr>\<rparr>], [''/item/1'' \<mapsto> True])"
    "href_attr \<lparr>href_attr = Inr ''/item/2'', item_container = Inr [Inr ''12'']\<rparr> = Inr ''/item/2''"
    "url_Parse ''/item/2'' = Inr (empty_url\<lparr>url_path := ''/item/2''\<rparr>)"
    "\<not> processed_get [''/item/1'' \<mapsto> True] (url_path (empty_url\<lparr>url_path := ''/item/2''\<rparr>))"
    "item_container \<lparr>href_attr = Inr ''/item/2'', item_container = Inr [Inr ''12'']\<rparr> = Inr [Inr ''12'']"
    "extractFirstCurrency ''12'' = Inl (PriceFormat ''12'')"
    by (simp_all add: go_defs)
  show ?thesis using fetchMoreProducts_price_error_aborts [OF h, of "[]"] by (simp add: link_path_def)
qed

end
