(* ===== verification/Producer.thy ===== *)
theory Producer
  imports Fetch
begin

text \<open>
  The goroutine of \<open>Scraper.Start\<close> (\<open>src/scraper.go\<close>) and the \<open>Products\<close> channel.
  The channel is a record with Go's channel state: the buffered values, the capacity
  and the closed flag; \<open>chan_close\<close> and \<open>chan_send\<close> follow the language rules (closing
  a closed channel panics, sending on a closed channel panics, a send blocks when the
  buffer is full and no receiver takes the value). The goroutine is in its \<open>for\<close> loop
  with the products of the current batch still to send (\<open>Looping ps\<close>; \<open>Looping []\<close> is
  the \<open>select\<close> at the top), or has returned, or has panicked.

  The run is an interleaving of three kinds of events: the context is cancelled, the
  consumer receives from the channel, the goroutine takes its next step (one \<open>select\<close>
  with the page the driver shows at that moment, or one send). \<open>world_step\<close> gives the
  effect of an event, \<open>None\<close> when the event cannot happen (a blocked send, a receive
  from an empty open channel, a step of a goroutine that has ended). The reachable
  worlds are an inductive set; the invariants are proved by rule induction, one lemma
  per invariant, each from a lemma about a single event. The world also records, as
  ghost state, the batches the goroutine has fetched, to state the ordering property.
\<close>

record chan =
  buf :: "product list"
  chan_cap :: nat
  closed :: bool

record scraper =
  Processed :: processed
  Products :: chan

datatype gstate = Looping "product list" | Returned | Panicked panic

record world =
  scr :: scraper
  gor :: gstate
  ctx_done :: bool
  received :: "product list"
  fetched :: "product list list"

datatype event = Cancel | Receive | Step page

subsection \<open>Channel operations\<close>

definition chan_close :: "chan \<Rightarrow> panic + chan" where
  "chan_close c = (if closed c then Inl CloseOfClosedChannel else Inr (c\<lparr>closed := True\<rparr>))"

text \<open>A send that can complete now: onto a closed channel it panics, into a buffer with
  room it completes; \<open>None\<close> means the sender blocks until a receiver comes.\<close>

definition chan_send :: "chan \<Rightarrow> product \<Rightarrow> (panic + chan) option" where
  "chan_send c p =
     (if closed c then Some (Inl SendOnClosedChannel)
      else if length (buf c) < chan_cap c then Some (Inr (c\<lparr>buf := buf c @ [p]\<rparr>))
      else None)"

text \<open>
  A receive by the consumer (\<open><-scraper.Products\<close>): it takes the oldest buffered value;
  if a sender is blocked, its value enters the buffer (for the unbuffered channel it is
  handed over directly) and the sender goes on; a closed, drained channel gives the end
  of the stream without a value; an open, empty channel with no sender blocks.
\<close>

definition chan_recv :: "chan \<Rightarrow> product option \<Rightarrow> (product option \<times> chan \<times> bool) option" where
  "chan_recv c sender =
     (case (buf c @ (case sender of None \<Rightarrow> [] | Some p \<Rightarrow> [p])) of
        v # rest \<Rightarrow> Some (Some v, c\<lparr>buf := rest\<rparr>, sender \<noteq> None)
      | [] \<Rightarrow> (if closed c then Some (None, c, False) else None))"

subsection \<open>The goroutine\<close>

text \<open>One pass through the \<open>select\<close> of the loop: \<open>ctx.Done()\<close> closes the channel and
  stays in the loop; otherwise, when \<open>len(i.Products) < 32\<close>, one call of
  \<open>fetchMoreProducts\<close>: on an error the goroutine returns, an empty batch continues, a
  batch is then sent product by product.\<close>

definition loop_select :: "bool \<Rightarrow> page \<Rightarrow> scraper \<Rightarrow> gstate \<times> scraper \<times> product list option" where
  "loop_select done pg s =
     (if done then
        (case chan_close (Products s) of
           Inl pn \<Rightarrow> (Panicked pn, s, None)
         | Inr c \<Rightarrow> (Looping [], s\<lparr>Products := c\<rparr>, None))
      else if length (buf (Products s)) < 32 then
        (case fetchMoreProducts pg (Processed s) of
           (FetchErr _ _, m) \<Rightarrow> (Returned, s\<lparr>Processed := m\<rparr>, None)
         | (FetchPanic pn, m) \<Rightarrow> (Panicked pn, s\<lparr>Processed := m\<rparr>, None)
         | (FetchOk ps, m) \<Rightarrow>
             (if ps = [] then (Looping [], s\<lparr>Processed := m\<rparr>, None)
              else (Looping ps, s\<lparr>Processed := m\<rparr>, Some ps)))
      else (Looping [], s, None))"

fun goroutine_step :: "world \<Rightarrow> page \<Rightarrow> world option" where
  "goroutine_step w pg =
     (case gor w of
        Looping [] \<Rightarrow>
          (case loop_select (ctx_done w) pg (scr w) of
             (g, s, b) \<Rightarrow>
               Some (w\<lparr>gor := g, scr := s,
                       fetched := fetched w @ (case b of None \<Rightarrow> [] | Some ps \<Rightarrow> [ps])\<rparr>))
      | Looping (p # ps) \<Rightarrow>
          (case chan_send (Products (scr w)) p of
             None \<Rightarrow> None
           | Some (Inl pn) \<Rightarrow> Some (w\<lparr>gor := Panicked pn\<rparr>)
           | Some (Inr c) \<Rightarrow> Some (w\<lparr>gor := Looping ps, scr := (scr w)\<lparr>Products := c\<rparr>\<rparr>))
      | Returned \<Rightarrow> None
      | Panicked _ \<Rightarrow> None)"

definition blocked_sender :: "gstate \<Rightarrow> product option" where
  "blocked_sender g = (case g of Looping (p # _) \<Rightarrow> Some p | _ \<Rightarrow> None)"

definition consumer_receive :: "world \<Rightarrow> world option" where
  "consumer_receive w =
     (let c = Products (scr w);
          sender = (if length (buf c) \<ge> chan_cap c \<and> \<not> closed c then blocked_sender (gor w) else None)
      in case chan_recv c sender of
           None \<Rightarrow> None
         | Some (v, c', woke) \<Rightarrow>
             Some (w\<lparr>scr := (scr w)\<lparr>Products := c'\<rparr>,
                     received := received w @ (case v of None \<Rightarrow> [] | Some x \<Rightarrow> [x]),
                     gor := (if woke then (case gor w of Looping (_ # ps) \<Rightarrow> Looping ps | g \<Rightarrow> g)
                             else gor w)\<rparr>))"

fun world_step :: "world \<Rightarrow> event \<Rightarrow> world option" where
  "world_step w Cancel = Some (w\<lparr>ctx_done := True\<rparr>)"
| "world_step w Receive = consumer_receive w"
| "world_step w (Step pg) = goroutine_step w pg"

definition start_world :: "scraper \<Rightarrow> world" where
  "start_world s = \<lparr>scr = s, gor = Looping [], ctx_done = False, received = [], fetched = []\<rparr>"

inductive reachable :: "scraper \<Rightarrow> world \<Rightarrow> bool" for s where
  start: "reachable s (start_world s)"
| step: "reachable s w \<Longrightarrow> world_step w e = Some w' \<Longrightarrow> reachable s w'"

fun run :: "world \<Rightarrow> event list \<Rightarrow> world option" where
  "run w [] = Some w"
| "run w (e # es) = (case world_step w e of None \<Rightarrow> None | Some w' \<Rightarrow> run w' es)"

definition fresh_chan :: "scraper \<Rightarrow> bool" where
  "fresh_chan s \<longleftrightarrow> buf (Products s) = [] \<and> \<not> closed (Products s)"

definition pending :: "world \<Rightarrow> product list" where
  "pending w = (case gor w of Looping ps \<Rightarrow> ps | _ \<Rightarrow> [])"

definition in_flight :: "world \<Rightarrow> product list" where
  "in_flight w = received w @ buf (Products (scr w)) @ pending w"

definition inv_ctl :: "world \<Rightarrow> bool" where
  "inv_ctl w \<longleftrightarrow>
     (closed (Products (scr w)) \<longrightarrow>
        ctx_done w \<and> (gor w = Looping [] \<or> gor w = Panicked CloseOfClosedChannel))
     \<and> (gor w = Returned \<longrightarrow> \<not> closed (Products (scr w)))
     \<and> gor w \<noteq> Panicked SendOnClosedChannel"

definition seen_inv :: "world \<Rightarrow> bool" where
  "seen_inv w \<longleftrightarrow> distinct (map link_path (in_flight w))
     \<and> (\<forall>p\<in>set (in_flight w). processed_get (Processed (scr w)) (link_path p))"

declare chan_close_def [go_defs] chan_send_def [go_defs] chan_recv_def [go_defs]
  loop_select_def [go_defs] blocked_sender_def [go_defs] consumer_receive_def [go_defs]
  start_world_def [go_defs] fresh_chan_def [go_defs]

subsection \<open>Control invariant: when the channel can be closed\<close>

lemma inv_ctl_start: "fresh_chan s \<Longrightarrow> inv_ctl (start_world s)"
  by (simp add: inv_ctl_def fresh_chan_def start_world_def)

lemma consumer_receive_cases:
  assumes "consumer_receive w = Some w'"
  obtains (sender) p ps where "gor w = Looping (p # ps)" "\<not> closed (Products (scr w))"
      "chan_cap (Products (scr w)) \<le> length (buf (Products (scr w)))"
      "buf (Products (scr w)) @ [p] = hd (buf (Products (scr w)) @ [p]) # buf (Products (scr w'))"
      "received w' = received w @ [hd (buf (Products (scr w)) @ [p])]" "gor w' = Looping ps"
      "chan_cap (Products (scr w')) = chan_cap (Products (scr w))"
      "closed (Products (scr w')) = closed (Products (scr w))"
      "Processed (scr w') = Processed (scr w)" "fetched w' = fetched w" "ctx_done w' = ctx_done w"
  | (buffered) v where "buf (Products (scr w)) = v # buf (Products (scr w'))"
      "received w' = received w @ [v]" "gor w' = gor w"
      "chan_cap (Products (scr w')) = chan_cap (Products (scr w))"
      "closed (Products (scr w')) = closed (Products (scr w))"
      "Processed (scr w') = Processed (scr w)" "fetched w' = fetched w" "ctx_done w' = ctx_done w"
  | (eos) "w' = w"
  using assms
  by (auto simp: consumer_receive_def chan_recv_def blocked_sender_def Let_def
      split: list.splits option.splits if_splits gstate.splits prod.splits)

lemma inv_ctl_step: "inv_ctl w \<Longrightarrow> world_step w e = Some w' \<Longrightarrow> inv_ctl w'"
proof (cases e)
  case Cancel
  assume "inv_ctl w" "world_step w e = Some w'"
  with Cancel show ?thesis by (auto simp: inv_ctl_def)
next
  case Receive
  assume inv: "inv_ctl w" and st: "world_step w e = Some w'"
  with Receive have "consumer_receive w = Some w'" by simp
  then show ?thesis
  proof (cases rule: consumer_receive_cases)
    case sender
    with inv show ?thesis by (simp add: inv_ctl_def)
  next
    case buffered
    with inv show ?thesis by (simp add: inv_ctl_def)
  next
    case eos
    with inv show ?thesis by simp
  qed
next
  case (Step pg)
  assume inv: "inv_ctl w" and st: "world_step w e = Some w'"
  with Step have g: "goroutine_step w pg = Some w'" by simp
  show ?thesis
  proof (cases "gor w")
    case (Looping ps)
    show ?thesis
    proof (cases ps)
      case Nil
      with Looping g inv show ?thesis
        by (auto simp: inv_ctl_def loop_select_def chan_close_def
            split: if_splits sum.splits prod.splits fetch_result.splits
            dest: fetchMoreProducts_panic)
    next
      case (Cons p ps')
      with Looping inv have "\<not> closed (Products (scr w))" by (auto simp: inv_ctl_def)
      with Looping Cons g inv show ?thesis
        by (auto simp: inv_ctl_def chan_send_def split: if_splits)
    qed
  next
    case Returned
    with g show ?thesis by simp
  next
    case (Panicked pn)
    with g show ?thesis by simp
  qed
qed

lemma reachable_inv_ctl: "reachable s w \<Longrightarrow> fresh_chan s \<Longrightarrow> inv_ctl w"
proof (induction rule: reachable.induct)
  case start
  then show ?case by (rule inv_ctl_start)
next
  case (step w e w')
  then show ?case using inv_ctl_step by blast
qed

subsection \<open>What one event does to the products in flight\<close>

text \<open>
  The products in flight are those received, buffered or still to be sent from the
  current batch. An event either leaves them and the fetched batches unchanged (and
  only marks products processed), or is a successful fetch at the top of the loop that
  appends its batch to both.
\<close>

lemma mark_all_self: "\<exists>new. m = mark_all m new"
  by (rule exI [of _ "[]"]) (simp add: mark_all_def)

lemma world_step_in_flight:
  assumes st: "world_step w e = Some w'" and inv: "inv_ctl w"
  shows "(fetched w' = fetched w \<and> in_flight w' = in_flight w
          \<and> (\<exists>new. Processed (scr w') = mark_all (Processed (scr w)) new))
       \<or> (\<exists>pg ps. gor w = Looping []
              \<and> fetchMoreProducts pg (Processed (scr w)) = (FetchOk ps, Processed (scr w'))
              \<and> fetched w' = fetched w @ [ps] \<and> in_flight w' = in_flight w @ ps)"
proof (cases e)
  case Cancel
  with st show ?thesis by (auto simp: in_flight_def pending_def mark_all_self)
next
  case Receive
  with st have "consumer_receive w = Some w'" by simp
  then show ?thesis
  proof (cases rule: consumer_receive_cases)
    case (sender p ps)
    then have "in_flight w' = in_flight w"
      by (simp add: in_flight_def pending_def)
    with sender show ?thesis by (auto simp: mark_all_self)
  next
    case (buffered v)
    then have "in_flight w' = in_flight w" by (simp add: in_flight_def pending_def)
    with buffered show ?thesis by (auto simp: mark_all_self)
  next
    case eos
    then show ?thesis by (auto simp: mark_all_self)
  qed
next
  case (Step pg)
  with st have g: "goroutine_step w pg = Some w'" by simp
  show ?thesis
  proof (cases "gor w")
    case (Looping ps)
    show ?thesis
    proof (cases ps)
      case Nil
      show ?thesis
      proof (cases "ctx_done w")
        case True
        with g Looping Nil show ?thesis
          by (auto simp: loop_select_def chan_close_def in_flight_def pending_def
              mark_all_self split: if_splits)
      next
        case nd: False
        show ?thesis
        proof (cases "length (buf (Products (scr w))) < 32")
          case False
          with g Looping Nil nd show ?thesis
            by (auto simp: loop_select_def in_flight_def pending_def mark_all_self)
        next
          case True
          obtain r m' where f: "fetchMoreProducts pg (Processed (scr w)) = (r, m')" by fastforce
          obtain new where m': "m' = mark_all (Processed (scr w)) new"
            using fetchMoreProducts_new [OF f] by blast
          show ?thesis
          proof (cases r)
            case (FetchOk qs)
            show ?thesis
            proof (cases "qs = []")
              case True
              with g Looping Nil nd \<open>length (buf (Products (scr w))) < 32\<close> f FetchOk m' show ?thesis
                by (auto simp: loop_select_def in_flight_def pending_def)
            next
              case False
              with g Looping Nil nd \<open>length (buf (Products (scr w))) < 32\<close> f FetchOk show ?thesis
                by (auto simp: loop_select_def in_flight_def pending_def)
            qed
          next
            case (FetchErr qs e')
            with g Looping Nil nd True f m' show ?thesis
              by (auto simp: loop_select_def in_flight_def pending_def)
          next
            case (FetchPanic pn)
            with g Looping Nil nd True f m' show ?thesis
              by (auto simp: loop_select_def in_flight_def pending_def)
          qed
        qed
      qed
    next
      case (Cons p ps')
      with Looping inv have "\<not> closed (Products (scr w))" by (auto simp: inv_ctl_def)
      with Looping Cons g show ?thesis
        by (auto simp: chan_send_def in_flight_def pending_def split: if_splits
            simp: mark_all_self)
    qed
  next
    case Returned
    with g show ?thesis by simp
  next
    case (Panicked pn)
    with g show ?thesis by simp
  qed
qed

lemma world_step_bound:
  assumes st: "world_step w e = Some w'" and inv: "inv_ctl w"
    and le: "length (buf (Products (scr w))) \<le> chan_cap (Products (scr w))"
  shows "length (buf (Products (scr w'))) \<le> chan_cap (Products (scr w'))
         \<and> chan_cap (Products (scr w')) = chan_cap (Products (scr w))"
proof (cases e)
  case Cancel
  with st le show ?thesis by auto
next
  case Receive
  with st have "consumer_receive w = Some w'" by simp
  then show ?thesis
  proof (cases rule: consumer_receive_cases)
    case (sender p ps)
    then have "length (buf (Products (scr w'))) = length (buf (Products (scr w)))"
      by (metis length_Cons length_append_singleton nat.inject)
    with sender le show ?thesis by simp
  next
    case (buffered v)
    with le show ?thesis by simp
  next
    case eos
    with le show ?thesis by simp
  qed
next
  case (Step pg)
  with st have g: "goroutine_step w pg = Some w'" by simp
  show ?thesis
  proof (cases "gor w")
    case (Looping ps)
    then show ?thesis
    proof (cases ps)
      case Nil
      with Looping g le show ?thesis
        by (auto simp: loop_select_def chan_close_def
            split: if_splits sum.splits prod.splits fetch_result.splits)
    next
      case (Cons p ps')
      with Looping g le show ?thesis by (auto simp: chan_send_def split: if_splits)
    qed
  next
    case Returned
    with g show ?thesis by simp
  next
    case (Panicked pn)
    with g show ?thesis by simp
  qed
qed

subsection \<open>Invariants of the reachable worlds\<close>

lemma reachable_order_inv:
  "reachable s w \<Longrightarrow> fresh_chan s \<Longrightarrow> in_flight w = concat (fetched w)"
proof (induction rule: reachable.induct)
  case start
  then show ?case by (simp add: start_world_def in_flight_def pending_def fresh_chan_def)
next
  case (step w e w')
  have "inv_ctl w" using step.hyps(1) step.prems by (rule reachable_inv_ctl)
  with step.hyps(2) step.IH step.prems show ?case using world_step_in_flight by fastforce
qed

lemma seen_inv_fetch:
  assumes "seen_inv w" and "fetchMoreProducts pg (Processed (scr w)) = (FetchOk ps, m')"
    and "in_flight w' = in_flight w @ ps" and "Processed (scr w') = m'"
  shows "seen_inv w'"
proof -
  obtain new where m': "m' = mark_all (Processed (scr w)) new" and d: "distinct (map link_path new)"
    and fr: "\<forall>p\<in>set new. \<not> processed_get (Processed (scr w)) (link_path p)" and ps: "ps = new"
    using fetchMoreProducts_new [OF assms(2)] by auto
  have disj: "link_path ` set (in_flight w) \<inter> link_path ` set ps = {}"
    using assms(1) fr ps by (auto simp: seen_inv_def)
  show ?thesis
    using assms(1,3,4) d disj m' ps by (auto simp: seen_inv_def processed_get_mark_all)
qed

lemma reachable_seen_inv: "reachable s w \<Longrightarrow> fresh_chan s \<Longrightarrow> seen_inv w"
proof (induction rule: reachable.induct)
  case start
  then show ?case by (simp add: seen_inv_def start_world_def in_flight_def pending_def fresh_chan_def)
next
  case (step w e w')
  have inv: "inv_ctl w" using step.hyps(1) step.prems by (rule reachable_inv_ctl)
  have sw: "seen_inv w" using step.IH step.prems .
  from world_step_in_flight [OF step.hyps(2) inv] show ?case
  proof
    assume "fetched w' = fetched w \<and> in_flight w' = in_flight w
            \<and> (\<exists>new. Processed (scr w') = mark_all (Processed (scr w)) new)"
    with sw show ?thesis by (auto simp: seen_inv_def processed_get_mark_all)
  next
    assume "\<exists>pg ps. gor w = Looping []
              \<and> fetchMoreProducts pg (Processed (scr w)) = (FetchOk ps, Processed (scr w'))
              \<and> fetched w' = fetched w @ [ps] \<and> in_flight w' = in_flight w @ ps"
    with sw show ?thesis using seen_inv_fetch by blast
  qed
qed

lemma reachable_bound_inv:
  "reachable s w \<Longrightarrow> fresh_chan s \<Longrightarrow>
   length (buf (Products (scr w))) \<le> chan_cap (Products (scr w))
   \<and> chan_cap (Products (scr w)) = chan_cap (Products s)"
proof (induction rule: reachable.induct)
  case start
  then show ?case by (simp add: start_world_def fresh_chan_def)
next
  case (step w e w')
  have "inv_ctl w" using step.hyps(1) step.prems by (rule reachable_inv_ctl)
  with step.hyps(2) step.IH step.prems show ?case using world_step_bound by fastforce
qed

lemma run_reachable: "run w es = Some w' \<Longrightarrow> reachable s w \<Longrightarrow> reachable s w'"
proof (induction w es rule: run.induct)
  case (1 w)
  then show ?case by simp
next
  case (2 w e es)
  then obtain w1 where w1: "world_step w e = Some w1" and r: "run w1 es = Some w'"
    by (auto split: option.splits)
  from "2.prems"(2) w1 have "reachable s w1" by (rule reachable.step)
  with "2.IH" [OF w1] r show ?case by simp
qed

lemma reachable_run: "run (start_world s) es = Some w \<Longrightarrow> reachable s w"
  using run_reachable reachable.start by blast

subsection \<open>After cancellation\<close>

text \<open>Once the context is cancelled, no event fetches: the \<open>ctx.Done()\<close> case is taken at
  every \<open>select\<close>, before the \<open>default\<close> case with its call of \<open>fetchMoreProducts\<close>;
  sends and receives touch neither the fetched batches nor \<open>Processed\<close>.\<close>

lemma cancelled_step:
  assumes "ctx_done w" and "world_step w e = Some w'"
  shows "ctx_done w' \<and> fetched w' = fetched w \<and> Processed (scr w') = Processed (scr w)"
proof (cases e)
  case Cancel
  with assms show ?thesis by auto
next
  case Receive
  with assms(2) have "consumer_receive w = Some w'" by simp
  then show ?thesis using assms(1) by (cases rule: consumer_receive_cases) simp_all
next
  case (Step pg)
  with assms(2) have g: "goroutine_step w pg = Some w'" by simp
  show ?thesis
  proof (cases "gor w")
    case (Looping ps)
    with g assms(1) show ?thesis
      by (cases ps) (auto simp: loop_select_def chan_close_def chan_send_def
          split: sum.splits option.splits if_splits)
  next
    case Returned
    with g show ?thesis by simp
  next
    case (Panicked pn)
    with g show ?thesis by simp
  qed
qed

lemma cancelled_run:
  "ctx_done w \<Longrightarrow> run w es = Some w' \<Longrightarrow>
   fetched w' = fetched w \<and> Processed (scr w') = Processed (scr w)"
proof (induction es arbitrary: w)
  case Nil
  then show ?case by simp
next
  case (Cons e es)
  then obtain w1 where st: "world_step w e = Some w1" and r: "run w1 es = Some w'"
    by (auto split: option.splits)
  from cancelled_step [OF Cons.prems(1) st] Cons.IH [of w1] r show ?case by simp
qed

subsection \<open>Properties of the producer loop\<close>

subsection \<open>Progress after cancellation\<close>

text \<open>
  Once the context is cancelled, each product still to be sent leaves the goroutine in
  one event (a send into a buffer with room, or the consumer taking it from the blocked
  sender); at the \<open>select\<close>, one step closes the channel and the next one panics.
\<close>

lemma cancel_select_panics:
  assumes "inv_ctl w" and "ctx_done w" and "gor w = Looping []"
  shows "\<exists>es w'. length es \<le> 2 \<and> Cancel \<notin> set es \<and> run w es = Some w'
           \<and> gor w' = Panicked CloseOfClosedChannel"
proof (cases "closed (Products (scr w))")
  case True
  with assms show ?thesis
    by (intro exI [of _ "[Step (Inr [])]"]) (simp add: loop_select_def chan_close_def)
next
  case False
  with assms show ?thesis
    by (intro exI [of _ "[Step (Inr []), Step (Inr [])]"]) (simp add: loop_select_def chan_close_def)
qed

lemma cancel_send_progress:
  assumes "inv_ctl w" and "gor w = Looping (p # ps)"
  shows "\<exists>e w1. e \<noteq> Cancel \<and> world_step w e = Some w1 \<and> gor w1 = Looping ps \<and> ctx_done w1 = ctx_done w"
proof -
  from assms have nc: "\<not> closed (Products (scr w))" by (auto simp: inv_ctl_def)
  show ?thesis
  proof (cases "length (buf (Products (scr w))) < chan_cap (Products (scr w))")
    case True
    with assms nc show ?thesis
      by (intro exI [of _ "Step (Inr [])"]) (simp add: chan_send_def)
  next
    case False
    with assms nc show ?thesis
      by (intro exI [of _ Receive])
        (simp add: consumer_receive_def chan_recv_def blocked_sender_def Let_def split: list.split)
  qed
qed

lemma cancel_drain:
  "inv_ctl w \<Longrightarrow> ctx_done w \<Longrightarrow> gor w = Looping ps \<Longrightarrow>
   \<exists>es w'. length es \<le> length ps + 2 \<and> Cancel \<notin> set es \<and> run w es = Some w'
     \<and> gor w' = Panicked CloseOfClosedChannel"
proof (induction ps arbitrary: w)
  case Nil
  from cancel_select_panics [OF Nil.prems] show ?case by (simp only: list.size add_0)
next
  case (Cons p ps)
  obtain e w1 where e: "e \<noteq> Cancel" "world_step w e = Some w1" "gor w1 = Looping ps"
      "ctx_done w1 = ctx_done w"
    using cancel_send_progress [OF Cons.prems(1,3)] by blast
  have "inv_ctl w1" using Cons.prems(1) e(2) by (rule inv_ctl_step)
  with Cons.prems(2) e(3,4) obtain es w' where
    "length es \<le> length ps + 2" "Cancel \<notin> set es" "run w1 es = Some w'"
    "gor w' = Panicked CloseOfClosedChannel"
    using Cons.IH by blast
  with e show ?case by (intro exI [of _ "e # es"] exI [of _ w']) simp
qed

text \<open>C1: No listing identifier is ever delivered twice: over every run of the goroutine
  of \<open>Start\<close> started on a fresh channel, with any interleaving of cancellation,
  consumer receives and pages shown by the driver, the products the consumer has
  received have pairwise distinct identifiers.\<close>

theorem start_no_duplicate_delivery:
  assumes "reachable s w" and "fresh_chan s"
  shows "distinct (map link_path (received w))"
  using reachable_seen_inv [OF assms] by (simp add: seen_inv_def in_flight_def)

theorem start_no_duplicate_delivery_witness:
  "map Name (received (the (run (start_world \<lparr>Processed = Map.empty, Products = \<lparr>buf = [], chan_cap = 0, closed = False\<rparr>\<rparr>)
        [Step (Inr [\<lparr>href_attr = Inr ''/item/1'', item_container = Inr [Inr ''FREE'', Inr ''Bike'']\<rparr>]), Receive, Step (Inr [\<lparr>href_attr = Inr ''/item/1?ref=x'', item_container = Inr [Inr ''FREE'', Inr ''Bike'']\<rparr>])]))) = [''Bike'']
   \<and> distinct (map link_path (received (the (run (start_world \<lparr>Processed = Map.empty, Products = \<lparr>buf = [], chan_cap = 0, closed = False\<rparr>\<rparr>)
        [Step (Inr [\<lparr>href_attr = Inr ''/item/1'', item_container = Inr [Inr ''FREE'', Inr ''Bike'']\<rparr>]), Receive, Step (Inr [\<lparr>href_attr = Inr ''/item/1?ref=x'', item_container = Inr [Inr ''FREE'', Inr ''Bike'']\<rparr>])]))))"
proof -
  have r: "run (start_world \<lparr>Processed = Map.empty, Products = \<lparr>buf = [], chan_cap = 0, closed = False\<rparr>\<rparr>)
        [Step (Inr [\<lparr>href_attr = Inr ''/item/1'', item_container = Inr [Inr ''FREE'', Inr ''Bike'']\<rparr>]), Receive, Step (Inr [\<lparr>href_attr = Inr ''/item/1?ref=x'', item_container = Inr [Inr ''FREE'', Inr ''Bike'']\<rparr>])] = Some (the (run (start_world \<lparr>Processed = Map.empty, Products = \<lparr>buf = [], chan_cap = 0, closed = False\<rparr>\<rparr>)
        [Step (Inr [\<lparr>href_attr = Inr ''/item/1'', item_container = Inr [Inr ''FREE'', Inr ''Bike'']\<rparr>]), Receive, Step (Inr [\<lparr>href_attr = Inr ''/item/1?ref=x'', item_container = Inr [Inr ''FREE'', Inr ''Bike'']\<rparr>])]))"
    by (simp add: go_defs)
  have reach: "reachable (\<lparr>Processed = Map.empty, Products = \<lparr>buf = [], chan_cap = 0, closed = False\<rparr>\<rparr>) (the (run (start_world \<lparr>Processed = Map.empty, Products = \<lparr>buf = [], chan_cap = 0, closed = False\<rparr>\<rparr>)
        [Step (Inr [\<lparr>href_attr = Inr ''/item/1'', item_container = Inr [Inr ''FREE'', Inr ''Bike'']\<rparr>]), Receive, Step (Inr [\<lparr>href_attr = Inr ''/item/1?ref=x'', item_container = Inr [Inr ''FREE'', Inr ''Bike'']\<rparr>])]))"
    using r by (rule reachable_run)
  have f: "fresh_chan (\<lparr>Processed = Map.empty, Products = \<lparr>buf = [], chan_cap = 0, closed = False\<rparr>\<rparr>)" by (simp add: fresh_chan_def)
  have n: "map Name (received (the (run (start_world \<lparr>Processed = Map.empty, Products = \<lparr>buf = [], chan_cap = 0, closed = False\<rparr>\<rparr>)
        [Step (Inr [\<lparr>href_attr = Inr ''/item/1'', item_container = Inr [Inr ''FREE'', Inr ''Bike'']\<rparr>]), Receive, Step (Inr [\<lparr>href_attr = Inr ''/item/1?ref=x'', item_container = Inr [Inr ''FREE'', Inr ''Bike'']\<rparr>])]))) = [''Bike'']" by (simp add: go_defs)
  from n start_no_duplicate_delivery [OF reach f] show ?thesis by (rule conjI)
qed

text \<open>C3: Order preservation: what the consumer has received, followed by what is
  buffered and what the goroutine still has to send, is exactly the concatenation of
  the batches fetched so far, in fetch order.\<close>

theorem start_delivery_order:
  assumes "reachable s w" and "fresh_chan s"
  shows "received w @ buf (Products (scr w)) @ pending w = concat (fetched w)"
  using reachable_order_inv [OF assms] by (simp add: in_flight_def)

theorem start_delivery_order_witness:
  "received (the (run (start_world \<lparr>Processed = Map.empty, Products = \<lparr>buf = [], chan_cap = 0, closed = False\<rparr>\<rparr>)
        [Step (Inr [\<lparr>href_attr = Inr ''/item/1'', item_container = Inr [Inr ''FREE'', Inr ''Bike'']\<rparr>]), Receive, Step (Inr [\<lparr>href_attr = Inr ''/item/1?ref=x'', item_container = Inr [Inr ''FREE'', Inr ''Bike'']\<rparr>])])) @ buf (Products (scr (the (run (start_world \<lparr>Processed = Map.empty, Products = \<lparr>buf = [], chan_cap = 0, closed = False\<rparr>\<rparr>)
        [Step (Inr [\<lparr>href_attr = Inr ''/item/1'', item_container = Inr [Inr ''FREE'', Inr ''Bike'']\<rparr>]), Receive, Step (Inr [\<lparr>href_attr = Inr ''/item/1?ref=x'', item_container = Inr [Inr ''FREE'', Inr ''Bike'']\<rparr>])])))) @ pending (the (run (start_world \<lparr>Processed = Map.empty, Products = \<lparr>buf = [], chan_cap = 0, closed = False\<rparr>\<rparr>)
        [Step (Inr [\<lparr>href_attr = Inr ''/item/1'', item_container = Inr [Inr ''FREE'', Inr ''Bike'']\<rparr>]), Receive, Step (Inr [\<lparr>href_attr = Inr ''/item/1?ref=x'', item_container = Inr [Inr ''FREE'', Inr ''Bike'']\<rparr>])])) = concat (fetched (the (run (start_world \<lparr>Processed = Map.empty, Products = \<lparr>buf = [], chan_cap = 0, closed = False\<rparr>\<rparr>)
        [Step (Inr [\<lparr>href_attr = Inr ''/item/1'', item_container = Inr [Inr ''FREE'', Inr ''Bike'']\<rparr>]), Receive, Step (Inr [\<lparr>href_attr = Inr ''/item/1?ref=x'', item_container = Inr [Inr ''FREE'', Inr ''Bike'']\<rparr>])])))"
proof -
  have r: "run (start_world \<lparr>Processed = Map.empty, Products = \<lparr>buf = [], chan_cap = 0, closed = False\<rparr>\<rparr>)
        [Step (Inr [\<lparr>href_attr = Inr ''/item/1'', item_container = Inr [Inr ''FREE'', Inr ''Bike'']\<rparr>]), Receive, Step (Inr [\<lparr>href_attr = Inr ''/item/1?ref=x'', item_container = Inr [Inr ''FREE'', Inr ''Bike'']\<rparr>])] = Some (the (run (start_world \<lparr>Processed = Map.empty, Products = \<lparr>buf = [], chan_cap = 0, closed = False\<rparr>\<rparr>)
        [Step (Inr [\<lparr>href_attr = Inr ''/item/1'', item_container = Inr [Inr ''FREE'', Inr ''Bike'']\<rparr>]), Receive, Step (Inr [\<lparr>href_attr = Inr ''/item/1?ref=x'', item_container = Inr [Inr ''FREE'', Inr ''Bike'']\<rparr>])]))"
    by (simp add: go_defs)
  have reach: "reachable (\<lparr>Processed = Map.empty, Products = \<lparr>buf = [], chan_cap = 0, closed = False\<rparr>\<rparr>) (the (run (start_world \<lparr>Processed = Map.empty, Products = \<lparr>buf = [], chan_cap = 0, closed = False\<rparr>\<rparr>)
        [Step (Inr [\<lparr>href_attr = Inr ''/item/1'', item_container = Inr [Inr ''FREE'', Inr ''Bike'']\<rparr>]), Receive, Step (Inr [\<lparr>href_attr = Inr ''/item/1?ref=x'', item_container = Inr [Inr ''FREE'', Inr ''Bike'']\<rparr>])]))"
    using r by (rule reachable_run)
  have f: "fresh_chan (\<lparr>Processed = Map.empty, Products = \<lparr>buf = [], chan_cap = 0, closed = False\<rparr>\<rparr>)" by (simp add: fresh_chan_def)
  from start_delivery_order [OF reach f] show ?thesis .
qed

text \<open>C8: Every product the consumer has received is marked in \<open>Processed\<close>: the
  identifier is recorded before the product is delivered.\<close>

theorem start_received_processed:
  assumes "reachable s w" and "fresh_chan s" and "p \<in> set (received w)"
  shows "processed_get (Processed (scr w)) (link_path p)"
  using reachable_seen_inv [OF assms(1,2)] assms(3) by (simp add: seen_inv_def in_flight_def)

theorem start_received_processed_witness:
  "processed_get (Processed (scr (the (run (start_world \<lparr>Processed = Map.empty, Products = \<lparr>buf = [], chan_cap = 0, closed = False\<rparr>\<rparr>)
        [Step (Inr [\<lparr>href_attr = Inr ''/item/1'', item_container = Inr [Inr ''FREE'', Inr ''Bike'']\<rparr>]), Receive, Step (Inr [\<lparr>href_attr = Inr ''/item/1?ref=x'', item_container = Inr [Inr ''FREE'', Inr ''Bike'']\<rparr>])])))) (link_path (hd (received (the (run (start_world \<lparr>Processed = Map.empty, Products = \<lparr>buf = [], chan_cap = 0, closed = False\<rparr>\<rparr>)
        [Step (Inr [\<lparr>href_attr = Inr ''/item/1'', item_container = Inr [Inr ''FREE'', Inr ''Bike'']\<rparr>]), Receive, Step (Inr [\<lparr>href_attr = Inr ''/item/1?ref=x'', item_container = Inr [Inr ''FREE'', Inr ''Bike'']\<rparr>])])))))"
proof -
  have r: "run (start_world \<lparr>Processed = Map.empty, Products = \<lparr>buf = [], chan_cap = 0, closed = False\<rparr>\<rparr>)
        [Step (Inr [\<lparr>href_attr = Inr ''/item/1'', item_container = Inr [Inr ''FREE'', Inr ''Bike'']\<rparr>]), Receive, Step (Inr [\<lparr>href_attr = Inr ''/item/1?ref=x'', item_container = Inr [Inr ''FREE'', Inr ''Bike'']\<rparr>])] = Some (the (run (start_world \<lparr>Processed = Map.empty, Products = \<lparr>buf = [], chan_cap = 0, closed = False\<rparr>\<rparr>)
        [Step (Inr [\<lparr>href_attr = Inr ''/item/1'', item_container = Inr [Inr ''FREE'', Inr ''Bike'']\<rparr>]), Receive, Step (Inr [\<lparr>href_attr = Inr ''/item/1?ref=x'', item_container = Inr [Inr ''FREE'', Inr ''Bike'']\<rparr>])]))"
    by (simp add: go_defs)
  have reach: "reachable (\<lparr>Processed = Map.empty, Products = \<lparr>buf = [], chan_cap = 0, closed = False\<rparr>\<rparr>) (the (run (start_world \<lparr>Processed = Map.empty, Products = \<lparr>buf = [], chan_cap = 0, closed = False\<rparr>\<rparr>)
        [Step (Inr [\<lparr>href_attr = Inr ''/item/1'', item_container = Inr [Inr ''FREE'', Inr ''Bike'']\<rparr>]), Receive, Step (Inr [\<lparr>href_attr = Inr ''/item/1?ref=x'', item_container = Inr [Inr ''FREE'', Inr ''Bike'']\<rparr>])]))"
    using r by (rule reachable_run)
  have f: "fresh_chan (\<lparr>Processed = Map.empty, Products = \<lparr>buf = [], chan_cap = 0, closed = False\<rparr>\<rparr>)" by (simp add: fresh_chan_def)
  have m: "hd (received (the (run (start_world \<lparr>Processed = Map.empty, Products = \<lparr>buf = [], chan_cap = 0, closed = False\<rparr>\<rparr>)
        [Step (Inr [\<lparr>href_attr = Inr ''/item/1'', item_container = Inr [Inr ''FREE'', Inr ''Bike'']\<rparr>]), Receive, Step (Inr [\<lparr>href_attr = Inr ''/item/1?ref=x'', item_container = Inr [Inr ''FREE'', Inr ''Bike'']\<rparr>])]))) \<in> set (received (the (run (start_world \<lparr>Processed = Map.empty, Products = \<lparr>buf = [], chan_cap = 0, closed = False\<rparr>\<rparr>)
        [Step (Inr [\<lparr>href_attr = Inr ''/item/1'', item_container = Inr [Inr ''FREE'', Inr ''Bike'']\<rparr>]), Receive, Step (Inr [\<lparr>href_attr = Inr ''/item/1?ref=x'', item_container = Inr [Inr ''FREE'', Inr ''Bike'']\<rparr>])])))" by (simp add: go_defs)
  from start_received_processed [OF reach f m] show ?thesis .
qed

text \<open>C2: The channel is never closed cleanly: in every reachable world where it is
  closed, the goroutine has already panicked with "close of closed channel", or it is
  still in its loop (the \<open>ctx.Done()\<close> branch does not return) and its very next
  step closes the channel again and panics; it can neither have returned nor do
  anything else.\<close>

theorem start_step_after_close_panics:
  assumes "reachable s w" and "fresh_chan s" and "closed (Products (scr w))"
  shows "gor w = Panicked CloseOfClosedChannel
         \<or> world_step w (Step pg) = Some (w\<lparr>gor := Panicked CloseOfClosedChannel\<rparr>)"
proof -
  have "inv_ctl w" using assms(1,2) by (rule reachable_inv_ctl)
  with assms(3) have "ctx_done w" and "gor w = Looping [] \<or> gor w = Panicked CloseOfClosedChannel"
    by (auto simp: inv_ctl_def)
  with assms(3) show ?thesis by (auto simp: loop_select_def chan_close_def)
qed

theorem start_step_after_close_panics_witness:
  "world_step (the (run (start_world \<lparr>Processed = Map.empty, Products = \<lparr>buf = [], chan_cap = 0, closed = False\<rparr>\<rparr>)
        [Cancel, Step (Inr [])])) (Step (Inr [])) = Some ((the (run (start_world \<lparr>Processed = Map.empty, Products = \<lparr>buf = [], chan_cap = 0, closed = False\<rparr>\<rparr>)
        [Cancel, Step (Inr [])]))\<lparr>gor := Panicked CloseOfClosedChannel\<rparr>)"
proof -
  have r: "run (start_world \<lparr>Processed = Map.empty, Products = \<lparr>buf = [], chan_cap = 0, closed = False\<rparr>\<rparr>)
        [Cancel, Step (Inr [])] = Some (the (run (start_world \<lparr>Processed = Map.empty, Products = \<lparr>buf = [], chan_cap = 0, closed = False\<rparr>\<rparr>)
        [Cancel, Step (Inr [])]))"
    by (simp add: go_defs)
  have reach: "reachable (\<lparr>Processed = Map.empty, Products = \<lparr>buf = [], chan_cap = 0, closed = False\<rparr>\<rparr>) (the (run (start_world \<lparr>Processed = Map.empty, Products = \<lparr>buf = [], chan_cap = 0, closed = False\<rparr>\<rparr>)
        [Cancel, Step (Inr [])]))"
    using r by (rule reachable_run)
  have f: "fresh_chan (\<lparr>Processed = Map.empty, Products = \<lparr>buf = [], chan_cap = 0, closed = False\<rparr>\<rparr>)" by (simp add: fresh_chan_def)
  have c: "closed (Products (scr (the (run (start_world \<lparr>Processed = Map.empty, Products = \<lparr>buf = [], chan_cap = 0, closed = False\<rparr>\<rparr>)
        [Cancel, Step (Inr [])]))))" by (simp add: go_defs)
  have g: "gor (the (run (start_world \<lparr>Processed = Map.empty, Products = \<lparr>buf = [], chan_cap = 0, closed = False\<rparr>\<rparr>)
        [Cancel, Step (Inr [])])) \<noteq> Panicked CloseOfClosedChannel" by (simp add: go_defs)
  from start_step_after_close_panics [OF reach f c, of "Inr []"] g show ?thesis by blast
qed

text \<open>C11: Cancellation seen at the top of the loop closes the channel, and the very next
  iteration panics: from any world where the goroutine is at the \<open>select\<close> with the
  context cancelled and the channel open, two steps end in the panic.\<close>

theorem start_cancel_double_close:
  assumes "gor w = Looping []" and "ctx_done w" and "\<not> closed (Products (scr w))"
  shows "\<exists>w1 w2. world_step w (Step pg1) = Some w1 \<and> closed (Products (scr w1))
           \<and> world_step w1 (Step pg2) = Some w2 \<and> gor w2 = Panicked CloseOfClosedChannel"
  using assms by (simp add: loop_select_def chan_close_def)

theorem start_cancel_double_close_witness:
  "\<exists>w1 w2. world_step ((start_world \<lparr>Processed = Map.empty, Products = \<lparr>buf = [], chan_cap = 0, closed = False\<rparr>\<rparr>)\<lparr>ctx_done := True\<rparr>) (Step (Inr [])) = Some w1
     \<and> closed (Products (scr w1)) \<and> world_step w1 (Step (Inr [])) = Some w2
     \<and> gor w2 = Panicked CloseOfClosedChannel"
proof -
  have h: "gor ((start_world \<lparr>Processed = Map.empty, Products = \<lparr>buf = [], chan_cap = 0, closed = False\<rparr>\<rparr>)\<lparr>ctx_done := True\<rparr>) = Looping []"
    "ctx_done ((start_world \<lparr>Processed = Map.empty, Products = \<lparr>buf = [], chan_cap = 0, closed = False\<rparr>\<rparr>)\<lparr>ctx_done := True\<rparr>)"
    "\<not> closed (Products (scr ((start_world \<lparr>Processed = Map.empty, Products = \<lparr>buf = [], chan_cap = 0, closed = False\<rparr>\<rparr>)\<lparr>ctx_done := True\<rparr>)))"
    by (simp_all add: start_world_def)
  from start_cancel_double_close [OF h] show ?thesis .
qed

text \<open>C15: The goroutine never sends on a closed channel.\<close>

theorem start_no_send_on_closed:
  assumes "reachable s w" and "fresh_chan s"
  shows "gor w \<noteq> Panicked SendOnClosedChannel"
  using reachable_inv_ctl [OF assms] by (simp add: inv_ctl_def)

theorem start_no_send_on_closed_witness:
  "received (the (run (start_world \<lparr>Processed = Map.empty, Products = \<lparr>buf = [], chan_cap = 0, closed = False\<rparr>\<rparr>)
        [Step (Inr [\<lparr>href_attr = Inr ''/item/1'', item_container = Inr [Inr ''FREE'', Inr ''Bike'']\<rparr>]), Receive, Step (Inr [\<lparr>href_attr = Inr ''/item/1?ref=x'', item_container = Inr [Inr ''FREE'', Inr ''Bike'']\<rparr>])])) \<noteq> [] \<and> gor (the (run (start_world \<lparr>Processed = Map.empty, Products = \<lparr>buf = [], chan_cap = 0, closed = False\<rparr>\<rparr>)
        [Step (Inr [\<lparr>href_attr = Inr ''/item/1'', item_container = Inr [Inr ''FREE'', Inr ''Bike'']\<rparr>]), Receive, Step (Inr [\<lparr>href_attr = Inr ''/item/1?ref=x'', item_container = Inr [Inr ''FREE'', Inr ''Bike'']\<rparr>])])) \<noteq> Panicked SendOnClosedChannel"
proof -
  have r: "run (start_world \<lparr>Processed = Map.empty, Products = \<lparr>buf = [], chan_cap = 0, closed = False\<rparr>\<rparr>)
        [Step (Inr [\<lparr>href_attr = Inr ''/item/1'', item_container = Inr [Inr ''FREE'', Inr ''Bike'']\<rparr>]), Receive, Step (Inr [\<lparr>href_attr = Inr ''/item/1?ref=x'', item_container = Inr [Inr ''FREE'', Inr ''Bike'']\<rparr>])] = Some (the (run (start_world \<lparr>Processed = Map.empty, Products = \<lparr>buf = [], chan_cap = 0, closed = False\<rparr>\<rparr>)
        [Step (Inr [\<lparr>href_attr = Inr ''/item/1'', item_container = Inr [Inr ''FREE'', Inr ''Bike'']\<rparr>]), Receive, Step (Inr [\<lparr>href_attr = Inr ''/item/1?ref=x'', item_container = Inr [Inr ''FREE'', Inr ''Bike'']\<rparr>])]))"
    by (simp add: go_defs)
  have reach: "reachable (\<lparr>Processed = Map.empty, Products = \<lparr>buf = [], chan_cap = 0, closed = False\<rparr>\<rparr>) (the (run (start_world \<lparr>Processed = Map.empty, Products = \<lparr>buf = [], chan_cap = 0, closed = False\<rparr>\<rparr>)
        [Step (Inr [\<lparr>href_attr = Inr ''/item/1'', item_container = Inr [Inr ''FREE'', Inr ''Bike'']\<rparr>]), Receive, Step (Inr [\<lparr>href_attr = Inr ''/item/1?ref=x'', item_container = Inr [Inr ''FREE'', Inr ''Bike'']\<rparr>])]))"
    using r by (rule reachable_run)
  have f: "fresh_chan (\<lparr>Processed = Map.empty, Products = \<lparr>buf = [], chan_cap = 0, closed = False\<rparr>\<rparr>)" by (simp add: fresh_chan_def)
  have n: "received (the (run (start_world \<lparr>Processed = Map.empty, Products = \<lparr>buf = [], chan_cap = 0, closed = False\<rparr>\<rparr>)
        [Step (Inr [\<lparr>href_attr = Inr ''/item/1'', item_container = Inr [Inr ''FREE'', Inr ''Bike'']\<rparr>]), Receive, Step (Inr [\<lparr>href_attr = Inr ''/item/1?ref=x'', item_container = Inr [Inr ''FREE'', Inr ''Bike'']\<rparr>])])) \<noteq> []" by (simp add: go_defs)
  from n start_no_send_on_closed [OF reach f] show ?thesis by (rule conjI)
qed

text \<open>C9: After a fetch error the goroutine has returned without closing the channel: on
  the unbuffered channel the consumer's next receive blocks forever (no step of the
  goroutine and no receive is possible, and cancelling the context does not help).\<close>

theorem start_fetch_error_blocks_consumer:
  assumes "reachable s w" and "fresh_chan s" and "chan_cap (Products s) = 0" and "gor w = Returned"
  shows "\<not> closed (Products (scr w)) \<and> world_step w Receive = None
         \<and> world_step (w\<lparr>ctx_done := True\<rparr>) Receive = None \<and> world_step w (Step pg) = None"
proof -
  have "inv_ctl w" using assms(1,2) by (rule reachable_inv_ctl)
  with assms(4) have nc: "\<not> closed (Products (scr w))" by (simp add: inv_ctl_def)
  have "buf (Products (scr w)) = []" using reachable_bound_inv [OF assms(1,2)] assms(3) by auto
  with nc assms(4) show ?thesis
    by (simp add: consumer_receive_def chan_recv_def blocked_sender_def Let_def)
qed

theorem start_fetch_error_blocks_consumer_witness:
  "\<not> closed (Products (scr (the (run (start_world \<lparr>Processed = Map.empty, Products = \<lparr>buf = [], chan_cap = 0, closed = False\<rparr>\<rparr>)
        [Step (Inr [\<lparr>href_attr = Inr ''/item/1'', item_container = Inr [Inr ''FREE'', Inr ''Bike'']\<rparr>]), Receive, Step (Inl (DriverError ''no such element''))])))) \<and> world_step (the (run (start_world \<lparr>Processed = Map.empty, Products = \<lparr>buf = [], chan_cap = 0, closed = False\<rparr>\<rparr>)
        [Step (Inr [\<lparr>href_attr = Inr ''/item/1'', item_container = Inr [Inr ''FREE'', Inr ''Bike'']\<rparr>]), Receive, Step (Inl (DriverError ''no such element''))])) Receive = None
   \<and> world_step ((the (run (start_world \<lparr>Processed = Map.empty, Products = \<lparr>buf = [], chan_cap = 0, closed = False\<rparr>\<rparr>)
        [Step (Inr [\<lparr>href_attr = Inr ''/item/1'', item_container = Inr [Inr ''FREE'', Inr ''Bike'']\<rparr>]), Receive, Step (Inl (DriverError ''no such element''))]))\<lparr>ctx_done := True\<rparr>) Receive = None \<and> world_step (the (run (start_world \<lparr>Processed = Map.empty, Products = \<lparr>buf = [], chan_cap = 0, closed = False\<rparr>\<rparr>)
        [Step (Inr [\<lparr>href_attr = Inr ''/item/1'', item_container = Inr [Inr ''FREE'', Inr ''Bike'']\<rparr>]), Receive, Step (Inl (DriverError ''no such element''))])) (Step (Inr [])) = None"
proof -
  have r: "run (start_world \<lparr>Processed = Map.empty, Products = \<lparr>buf = [], chan_cap = 0, closed = False\<rparr>\<rparr>)
        [Step (Inr [\<lparr>href_attr = Inr ''/item/1'', item_container = Inr [Inr ''FREE'', Inr ''Bike'']\<rparr>]), Receive, Step (Inl (DriverError ''no such element''))] = Some (the (run (start_world \<lparr>Processed = Map.empty, Products = \<lparr>buf = [], chan_cap = 0, closed = False\<rparr>\<rparr>)
        [Step (Inr [\<lparr>href_attr = Inr ''/item/1'', item_container = Inr [Inr ''FREE'', Inr ''Bike'']\<rparr>]), Receive, Step (Inl (DriverError ''no such element''))]))"
    by (simp add: go_defs)
  have reach: "reachable (\<lparr>Processed = Map.empty, Products = \<lparr>buf = [], chan_cap = 0, closed = False\<rparr>\<rparr>) (the (run (start_world \<lparr>Processed = Map.empty, Products = \<lparr>buf = [], chan_cap = 0, closed = False\<rparr>\<rparr>)
        [Step (Inr [\<lparr>href_attr = Inr ''/item/1'', item_container = Inr [Inr ''FREE'', Inr ''Bike'']\<rparr>]), Receive, Step (Inl (DriverError ''no such element''))]))"
    using r by (rule reachable_run)
  have f: "fresh_chan (\<lparr>Processed = Map.empty, Products = \<lparr>buf = [], chan_cap = 0, closed = False\<rparr>\<rparr>)" by (simp add: fresh_chan_def)
  have c: "chan_cap (Products (\<lparr>Processed = Map.empty, Products = \<lparr>buf = [], chan_cap = 0, closed = False\<rparr>\<rparr>)) = 0" by simp
  have g: "gor (the (run (start_world \<lparr>Processed = Map.empty, Products = \<lparr>buf = [], chan_cap = 0, closed = False\<rparr>\<rparr>)
        [Step (Inr [\<lparr>href_attr = Inr ''/item/1'', item_container = Inr [Inr ''FREE'', Inr ''Bike'']\<rparr>]), Receive, Step (Inl (DriverError ''no such element''))])) = Returned" by (simp add: go_defs)
  from start_fetch_error_blocks_consumer [OF reach f c g] show ?thesis .
qed

text \<open>C12: Cancellation is observed within a bounded number of events: from any reachable
  world where the context is cancelled and the goroutine is still in its loop with
  \<open>ps\<close> products of the batch left to send, the goroutine and a consumer that keeps
  receiving reach, in at most \<open>length ps + 2\<close> events and without further
  cancellation, the panic "close of closed channel".\<close>

theorem start_cancel_panics_within:
  assumes "reachable s w" and "fresh_chan s" and "ctx_done w" and "gor w = Looping ps"
  shows "\<exists>es w'. length es \<le> length ps + 2 \<and> Cancel \<notin> set es \<and> run w es = Some w'
           \<and> gor w' = Panicked CloseOfClosedChannel"
  using cancel_drain [OF reachable_inv_ctl [OF assms(1,2)] assms(3,4)] .

theorem start_cancel_panics_within_witness:
  "\<exists>es w'. length es \<le> 3 \<and> Cancel \<notin> set es
     \<and> run (the (run (start_world \<lparr>Processed = Map.empty, Products = \<lparr>buf = [], chan_cap = 0, closed = False\<rparr>\<rparr>)
        [Step (Inr [\<lparr>href_attr = Inr ''/item/1'', item_container = Inr [Inr ''FREE'', Inr ''Bike'']\<rparr>]), Cancel])) es = Some w' \<and> gor w' = Panicked CloseOfClosedChannel"
proof -
  have r: "run (start_world \<lparr>Processed = Map.empty, Products = \<lparr>buf = [], chan_cap = 0, closed = False\<rparr>\<rparr>)
        [Step (Inr [\<lparr>href_attr = Inr ''/item/1'', item_container = Inr [Inr ''FREE'', Inr ''Bike'']\<rparr>]), Cancel] = Some (the (run (start_world \<lparr>Processed = Map.empty, Products = \<lparr>buf = [], chan_cap = 0, closed = False\<rparr>\<rparr>)
        [Step (Inr [\<lparr>href_attr = Inr ''/item/1'', item_container = Inr [Inr ''FREE'', Inr ''Bike'']\<rparr>]), Cancel]))"
    by (simp add: go_defs)
  have reach: "reachable (\<lparr>Processed = Map.empty, Products = \<lparr>buf = [], chan_cap = 0, closed = False\<rparr>\<rparr>) (the (run (start_world \<lparr>Processed = Map.empty, Products = \<lparr>buf = [], chan_cap = 0, closed = False\<rparr>\<rparr>)
        [Step (Inr [\<lparr>href_attr = Inr ''/item/1'', item_container = Inr [Inr ''FREE'', Inr ''Bike'']\<rparr>]), Cancel]))"
    using r by (rule reachable_run)
  have f: "fresh_chan (\<lparr>Processed = Map.empty, Products = \<lparr>buf = [], chan_cap = 0, closed = False\<rparr>\<rparr>)" by (simp add: fresh_chan_def)
  have d: "ctx_done (the (run (start_world \<lparr>Processed = Map.empty, Products = \<lparr>buf = [], chan_cap = 0, closed = False\<rparr>\<rparr>)
        [Step (Inr [\<lparr>href_attr = Inr ''/item/1'', item_container = Inr [Inr ''FREE'', Inr ''Bike'']\<rparr>]), Cancel]))" by (simp add: go_defs)
  have g: "gor (the (run (start_world \<lparr>Processed = Map.empty, Products = \<lparr>buf = [], chan_cap = 0, closed = False\<rparr>\<rparr>)
        [Step (Inr [\<lparr>href_attr = Inr ''/item/1'', item_container = Inr [Inr ''FREE'', Inr ''Bike'']\<rparr>]), Cancel])) = Looping (pending (the (run (start_world \<lparr>Processed = Map.empty, Products = \<lparr>buf = [], chan_cap = 0, closed = False\<rparr>\<rparr>)
        [Step (Inr [\<lparr>href_attr = Inr ''/item/1'', item_container = Inr [Inr ''FREE'', Inr ''Bike'']\<rparr>]), Cancel])))"
    by (simp add: go_defs pending_def)
  have l: "length (pending (the (run (start_world \<lparr>Processed = Map.empty, Products = \<lparr>buf = [], chan_cap = 0, closed = False\<rparr>\<rparr>)
        [Step (Inr [\<lparr>href_attr = Inr ''/item/1'', item_container = Inr [Inr ''FREE'', Inr ''Bike'']\<rparr>]), Cancel]))) + 2 = 3"
    by (simp add: go_defs pending_def)
  from start_cancel_panics_within [OF reach f d g] show ?thesis by (simp only: l)
qed


text \<open>C13: Cancellation stops the fetching: from any world where the context is cancelled,
  every sequence of events leaves the fetched batches and \<open>Processed\<close> as they are; no
  page is read and no listing is marked again, whatever the driver shows.\<close>

theorem start_no_fetch_after_cancel:
  assumes "ctx_done w" and "run w es = Some w'"
  shows "fetched w' = fetched w \<and> Processed (scr w') = Processed (scr w)"
  using assms by (rule cancelled_run)

theorem start_no_fetch_after_cancel_witness:
  "fetched (the (run (the (run (start_world \<lparr>Processed = Map.empty, Products = \<lparr>buf = [], chan_cap = 0, closed = False\<rparr>\<rparr>)
        [Step (Inr [\<lparr>href_attr = Inr ''/item/1'', item_container = Inr [Inr ''FREE'', Inr ''Bike'']\<rparr>]), Cancel])) [Receive, Step (Inr [\<lparr>href_attr = Inr ''/item/2'', item_container = Inr [Inr ''FREE'', Inr ''Lamp'']\<rparr>]), Receive])) = fetched (the (run (start_world \<lparr>Processed = Map.empty, Products = \<lparr>buf = [], chan_cap = 0, closed = False\<rparr>\<rparr>)
        [Step (Inr [\<lparr>href_attr = Inr ''/item/1'', item_container = Inr [Inr ''FREE'', Inr ''Bike'']\<rparr>]), Cancel]))
   \<and> Processed (scr (the (run (the (run (start_world \<lparr>Processed = Map.empty, Products = \<lparr>buf = [], chan_cap = 0, closed = False\<rparr>\<rparr>)
        [Step (Inr [\<lparr>href_attr = Inr ''/item/1'', item_container = Inr [Inr ''FREE'', Inr ''Bike'']\<rparr>]), Cancel])) [Receive, Step (Inr [\<lparr>href_attr = Inr ''/item/2'', item_container = Inr [Inr ''FREE'', Inr ''Lamp'']\<rparr>]), Receive]))) = Processed (scr (the (run (start_world \<lparr>Processed = Map.empty, Products = \<lparr>buf = [], chan_cap = 0, closed = False\<rparr>\<rparr>)
        [Step (Inr [\<lparr>href_attr = Inr ''/item/1'', item_container = Inr [Inr ''FREE'', Inr ''Bike'']\<rparr>]), Cancel])))
   \<and> received (the (run (the (run (start_world \<lparr>Processed = Map.empty, Products = \<lparr>buf = [], chan_cap = 0, closed = False\<rparr>\<rparr>)
        [Step (Inr [\<lparr>href_attr = Inr ''/item/1'', item_container = Inr [Inr ''FREE'', Inr ''Bike'']\<rparr>]), Cancel])) [Receive, Step (Inr [\<lparr>href_attr = Inr ''/item/2'', item_container = Inr [Inr ''FREE'', Inr ''Lamp'']\<rparr>]), Receive])) \<noteq> []"
proof -
  have d: "ctx_done (the (run (start_world \<lparr>Processed = Map.empty, Products = \<lparr>buf = [], chan_cap = 0, closed = False\<rparr>\<rparr>)
        [Step (Inr [\<lparr>href_attr = Inr ''/item/1'', item_container = Inr [Inr ''FREE'', Inr ''Bike'']\<rparr>]), Cancel]))" by (simp add: go_defs)
  have r: "run (the (run (start_world \<lparr>Processed = Map.empty, Products = \<lparr>buf = [], chan_cap = 0, closed = False\<rparr>\<rparr>)
        [Step (Inr [\<lparr>href_attr = Inr ''/item/1'', item_container = Inr [Inr ''FREE'', Inr ''Bike'']\<rparr>]), Cancel])) [Receive, Step (Inr [\<lparr>href_attr = Inr ''/item/2'', item_container = Inr [Inr ''FREE'', Inr ''Lamp'']\<rparr>]), Receive] = Some (the (run (the (run (start_world \<lparr>Processed = Map.empty, Products = \<lparr>buf = [], chan_cap = 0, closed = False\<rparr>\<rparr>)
        [Step (Inr [\<lparr>href_attr = Inr ''/item/1'', item_container = Inr [Inr ''FREE'', Inr ''Bike'']\<rparr>]), Cancel])) [Receive, Step (Inr [\<lparr>href_attr = Inr ''/item/2'', item_container = Inr [Inr ''FREE'', Inr ''Lamp'']\<rparr>]), Receive]))"
    by (simp add: go_defs)
  have n: "received (the (run (the (run (start_world \<lparr>Processed = Map.empty, Products = \<lparr>buf = [], chan_cap = 0, closed = False\<rparr>\<rparr>)
        [Step (Inr [\<lparr>href_attr = Inr ''/item/1'', item_container = Inr [Inr ''FREE'', Inr ''Bike'']\<rparr>]), Cancel])) [Receive, Step (Inr [\<lparr>href_attr = Inr ''/item/2'', item_container = Inr [Inr ''FREE'', Inr ''Lamp'']\<rparr>]), Receive])) \<noteq> []" by (simp add: go_defs)
  from start_no_fetch_after_cancel [OF d r] n show ?thesis by blast
qed

end
