(* ===== verification/Session.thy ===== *)
theory Session
  imports Producer
begin

text \<open>
  Session setup in \<open>src/scraper.go\<close>: \<open>NewInstance\<close>, \<open>handleCookiesAndDialogue\<close> and
  \<open>waitForElement\<close>. The WebDriver is the environment: a record \<open>driver_env\<close> gives
  the result of every driver call the code makes (an element found is \<open>Inr True\<close>, a
  nil element \<open>Inr False\<close>, a failed call \<open>Inl err\<close>). \<open>waitForElement\<close> polls the
  driver until a deadline; the model's clock is in milliseconds, each poll at time
  \<open>t\<close> costs the driver's answer time \<open>poll_cost t\<close> plus the 500 ms sleep, and the loop
  is a \<^theory_text>\<open>function\<close> whose termination is proved by the measure of the time left.
\<close>

record driver_env =
  new_remote :: "error option"
  maximize_window :: "error option"
  get_marketplace :: "error option"
  find_decline_cookies :: "error + bool"
  click_decline_cookies :: "error option"
  find_close_sign_in :: "error + bool"
  click_close_sign_in :: "error option"
  shop_local_probe :: "nat \<Rightarrow> error + (error + bool)"
  poll_cost :: "nat \<Rightarrow> nat"
  click_shop_local :: "error option"
  clock_start :: nat

text \<open>\<open>waitForElement\<close>: while \<open>time.Now().Before(end)\<close>, look the element up; when it
  is found and \<open>IsDisplayed\<close> says so, return it; then sleep 500 ms.\<close>

function wait_loop :: "(nat \<Rightarrow> error + (error + bool)) \<Rightarrow> (nat \<Rightarrow> nat) \<Rightarrow> nat \<Rightarrow> nat \<Rightarrow> nat \<Rightarrow> error + bool" where
  "wait_loop probe cost timeout deadline now =
     (if now < deadline then
        (case probe now of
           Inr (Inr True) \<Rightarrow> Inr True
         | _ \<Rightarrow> wait_loop probe cost timeout deadline (now + cost now + 500))
      else Inl (WaitTimeout timeout))"
  by pat_completeness auto
termination
  by (relation "measure (\<lambda>(probe, cost, timeout, deadline, now). deadline - now)") auto

definition waitForElement :: "driver_env \<Rightarrow> nat \<Rightarrow> nat \<Rightarrow> error + bool" where
  "waitForElement env now timeout =
     wait_loop (shop_local_probe env) (poll_cost env) timeout (now + timeout) now"

text \<open>The times at which the loop polls, by the same recursion.\<close>

function poll_times :: "(nat \<Rightarrow> error + (error + bool)) \<Rightarrow> (nat \<Rightarrow> nat) \<Rightarrow> nat \<Rightarrow> nat \<Rightarrow> nat list" where
  "poll_times probe cost deadline now =
     (if now < deadline then
        now # (case probe now of
                 Inr (Inr True) \<Rightarrow> []
               | _ \<Rightarrow> poll_times probe cost deadline (now + cost now + 500))
      else [])"
  by pat_completeness auto
termination
  by (relation "measure (\<lambda>(probe, cost, deadline, now). deadline - now)") auto

definition click_if_present :: "error + bool \<Rightarrow> error option \<Rightarrow> error option" where
  "click_if_present found click =
     (case found of
        Inl err \<Rightarrow> Some err
      | Inr False \<Rightarrow> None
      | Inr True \<Rightarrow> click)"

definition handleCookiesAndDialogue :: "driver_env \<Rightarrow> error option" where
  "handleCookiesAndDialogue env =
     (case click_if_present (find_decline_cookies env) (click_decline_cookies env) of
        Some err \<Rightarrow> Some err
      | None \<Rightarrow>
          (case click_if_present (find_close_sign_in env) (click_close_sign_in env) of
             Some err \<Rightarrow> Some err
           | None \<Rightarrow> click_if_present (waitForElement env (clock_start env) 10000)
                       (click_shop_local env)))"

definition NewInstance :: "driver_env \<Rightarrow> error + scraper" where
  "NewInstance env =
     (case new_remote env of
        Some err \<Rightarrow> Inl err
      | None \<Rightarrow>
          (case maximize_window env of
             Some err \<Rightarrow> Inl err
           | None \<Rightarrow>
               (case get_marketplace env of
                  Some err \<Rightarrow> Inl err
                | None \<Rightarrow>
                    (case handleCookiesAndDialogue env of
                       Some err \<Rightarrow> Inl err
                     | None \<Rightarrow> Inr \<lparr>Processed = Map.empty,
                                     Products = \<lparr>buf = [], chan_cap = 0, closed = False\<rparr>\<rparr>))))"

declare waitForElement_def [go_defs] click_if_present_def [go_defs]
  handleCookiesAndDialogue_def [go_defs] NewInstance_def [go_defs]

declare wait_loop.simps [simp del] poll_times.simps [simp del]

subsection \<open>The polling loop\<close>

lemma not_visible_cases:
  assumes "p \<noteq> Inr (Inr True)"
  obtains (find_err) a where "p = Inl a"
    | (shown_err) b a where "p = Inr b" "b = Inl a"
    | (hidden) b ba where "p = Inr b" "b = Inr ba" "\<not> ba"
proof (cases p)
  case (Inl a)
  then show ?thesis by (rule find_err)
next
  case (Inr b)
  show ?thesis
  proof (cases b)
    case (Inl a)
    with Inr show ?thesis by (rule shown_err)
  next
    case (Inr ba)
    with \<open>p = Inr b\<close> assms have "\<not> ba" by auto
    with \<open>p = Inr b\<close> Inr show ?thesis by (rule hidden)
  qed
qed

lemma wait_loop_poll_times:
  "wait_loop probe cost timeout deadline now =
     (if \<exists>t \<in> set (poll_times probe cost deadline now). probe t = Inr (Inr True)
      then Inr True else Inl (WaitTimeout timeout))"
proof (induction probe cost deadline now rule: poll_times.induct)
  case (1 probe cost deadline now)
  show ?case
  proof (cases "now < deadline")
    case False
    then show ?thesis
      by (simp add: wait_loop.simps [of probe cost timeout deadline now] poll_times.simps [of probe cost deadline now])
  next
    case True
    show ?thesis
    proof (cases "probe now = Inr (Inr True)")
      case True
      with \<open>now < deadline\<close> show ?thesis
        by (simp add: wait_loop.simps [of probe cost timeout deadline now] poll_times.simps [of probe cost deadline now])
    next
      case False
      then have "wait_loop probe cost timeout deadline now
                 = wait_loop probe cost timeout deadline (now + cost now + 500)"
        and "poll_times probe cost deadline now = now # poll_times probe cost deadline (now + cost now + 500)"
        using \<open>now < deadline\<close>
        by (auto simp: wait_loop.simps [of probe cost timeout deadline now]
                       poll_times.simps [of probe cost deadline now] split: sum.splits bool.splits)
      moreover have "wait_loop probe cost timeout deadline (now + cost now + 500) =
          (if \<exists>t \<in> set (poll_times probe cost deadline (now + cost now + 500)). probe t = Inr (Inr True)
           then Inr True else Inl (WaitTimeout timeout))"
        by (rule not_visible_cases [OF False]) (use "1.IH" \<open>now < deadline\<close> in blast)+
      ultimately show ?thesis using False by auto
    qed
  qed
qed

lemma poll_step_arith:
  assumes "now < deadline"
  shows "Suc ((deadline - (now + c + 500) + 499) div 500) \<le> (deadline - now + 499) div 500"
proof (cases "deadline - now \<le> c + 500")
  case True
  then have "deadline - (now + c + 500) = 0" by arith
  moreover have "(500::nat) div 500 \<le> (deadline - now + 499) div 500"
    using assms by (intro div_le_mono) arith
  ultimately show ?thesis by simp
next
  case False
  have "Suc ((deadline - (now + c + 500) + 499) div 500) = (deadline - (now + c + 500) + 999) div 500"
    by simp
  also have "\<dots> \<le> (deadline - now + 499) div 500"
    using False by (intro div_le_mono) arith
  finally show ?thesis .
qed

lemma poll_times_length:
  "length (poll_times probe cost deadline now) \<le> (deadline - now + 499) div 500"
proof (induction probe cost deadline now rule: poll_times.induct)
  case (1 probe cost deadline now)
  show ?case
  proof (cases "now < deadline")
    case False
    then show ?thesis by (simp add: poll_times.simps [of probe cost deadline now])
  next
    case True
    show ?thesis
    proof (cases "probe now = Inr (Inr True)")
      case True
      with \<open>now < deadline\<close> show ?thesis
        by (simp add: poll_times.simps [of probe cost deadline now] poll_step_arith [of now deadline 0, simplified])
    next
      case False
      have IH: "length (poll_times probe cost deadline (now + cost now + 500))
                \<le> (deadline - (now + cost now + 500) + 499) div 500"
        by (rule not_visible_cases [OF False]) (use "1.IH" \<open>now < deadline\<close> in blast)+
      have "poll_times probe cost deadline now = now # poll_times probe cost deadline (now + cost now + 500)"
        using \<open>now < deadline\<close> False
        by (auto simp: poll_times.simps [of probe cost deadline now] split: sum.splits bool.splits)
      then have "length (poll_times probe cost deadline now)
                 \<le> Suc ((deadline - (now + cost now + 500) + 499) div 500)"
        using IH by simp
      also have "\<dots> \<le> (deadline - now + 499) div 500"
        using \<open>now < deadline\<close> by (rule poll_step_arith)
      finally show ?thesis .
    qed
  qed
qed

subsection \<open>Properties of the session setup\<close>

text \<open>C33: \<open>waitForElement\<close> always returns: it gives the element exactly when one of its
  polls before the deadline finds it displayed, and the timeout error otherwise; it
  polls at most once per 500 ms of the timeout (20 times for the 10 s of the code).\<close>

theorem waitForElement_spec:
  "waitForElement env now timeout =
     (if \<exists>t \<in> set (poll_times (shop_local_probe env) (poll_cost env) (now + timeout) now).
           shop_local_probe env t = Inr (Inr True)
      then Inr True else Inl (WaitTimeout timeout))
   \<and> length (poll_times (shop_local_probe env) (poll_cost env) (now + timeout) now) \<le> (timeout + 499) div 500"
  using wait_loop_poll_times poll_times_length [of "shop_local_probe env" "poll_cost env" "now + timeout" now]
  by (simp add: waitForElement_def)

end
