(* ===== verification/Batch_Spec.thy ===== *)
theory Batch_Spec
  imports Fetch
begin

text \<open>
  An abstract specification of one call of \<open>fetchMoreProducts\<close> and the proof that the
  loop of \<open>src/scraper.go\<close> implements it. Abstractly, a page is the list of products
  its listings describe (\<open>listing_product\<close>: the record the code builds from a listing
  whose \<open>href\<close>, URL and text fragments are all readable), and the batch is
  \<open>first_fresh\<close>: the products whose identifier is neither processed already nor that
  of an earlier listing of the page, in page order, stated by index without any state.
  The implementation walks the page once and detects the repetitions through the
  \<open>Processed\<close> map it updates as it goes.
\<close>

definition listing_product :: "listing_elem \<Rightarrow> product option" where
  "listing_product v =
     (case href_attr v of
        Inl _ \<Rightarrow> None
      | Inr href \<Rightarrow>
          (case url_Parse href of
             Inl _ \<Rightarrow> None
           | Inr u \<Rightarrow>
               (case item_container v of
                  Inl _ \<Rightarrow> None
                | Inr texts \<Rightarrow>
                    (case fill_fields (zero_product\<lparr>Link := u\<rparr>) 0 texts of
                       Inl _ \<Rightarrow> None
                     | Inr p \<Rightarrow> Some p))))"

definition first_fresh :: "processed \<Rightarrow> product list \<Rightarrow> product list" where
  "first_fresh m ps =
     map (nth ps)
       (filter (\<lambda>i. \<not> processed_get m (link_path (ps ! i))
                    \<and> link_path (ps ! i) \<notin> set (map link_path (take i ps)))
          [0..<length ps])"

declare listing_product_def [go_defs] first_fresh_def [go_defs]

subsection \<open>The specification, one listing at a time\<close>

lemma first_fresh_Nil: "first_fresh m [] = []"
  by (simp add: first_fresh_def)

lemma first_fresh_Cons:
  "first_fresh m (p # ps) =
     (if processed_get m (link_path p) then first_fresh m ps
      else p # first_fresh (m(link_path p \<mapsto> True)) ps)"
proof -
  have u: "[0..<length (p # ps)] = 0 # map Suc [0..<length ps]"
    by (simp only: length_Cons map_Suc_upt) (rule upt_conv_Cons, simp)
  let ?P = "\<lambda>m ps i. \<not> processed_get m (link_path (ps ! i))
                      \<and> link_path (ps ! i) \<notin> set (map link_path (take i ps))"
  have shift: "filter (?P m (p # ps)) (map Suc [0..<length ps])
      = map Suc (filter (\<lambda>j. \<not> processed_get m (link_path (ps ! j))
           \<and> link_path (ps ! j) \<noteq> link_path p
           \<and> link_path (ps ! j) \<notin> set (map link_path (take j ps))) [0..<length ps])"
    by (simp add: filter_map comp_def)
  show ?thesis
  proof (cases "processed_get m (link_path p)")
    case True
    have "filter (\<lambda>j. \<not> processed_get m (link_path (ps ! j))
           \<and> link_path (ps ! j) \<noteq> link_path p
           \<and> link_path (ps ! j) \<notin> set (map link_path (take j ps))) [0..<length ps]
        = filter (?P m ps) [0..<length ps]"
      using True by (intro filter_cong) auto
    with True shift u show ?thesis by (simp add: first_fresh_def)
  next
    case False
    have "filter (\<lambda>j. \<not> processed_get m (link_path (ps ! j))
           \<and> link_path (ps ! j) \<noteq> link_path p
           \<and> link_path (ps ! j) \<notin> set (map link_path (take j ps))) [0..<length ps]
        = filter (?P (m(link_path p \<mapsto> True)) ps) [0..<length ps]"
      by (intro filter_cong) (auto simp: processed_get_upd)
    with False shift u show ?thesis by (simp add: first_fresh_def)
  qed
qed

text \<open>One iteration of the loop, on a listing that yields a product, is the step of the
  specification: skip a processed identifier, otherwise append and mark.\<close>

lemma process_listing_product:
  assumes "listing_product v = Some p"
  shows "process_listing m v =
           (if processed_get m (link_path p) then Skip else Append p (m(link_path p \<mapsto> True)))"
proof -
  from assms obtain href u texts where "href_attr v = Inr href" "url_Parse href = Inr u"
    "item_container v = Inr texts" and ff: "fill_fields (zero_product\<lparr>Link := u\<rparr>) 0 texts = Inr p"
    by (auto simp: listing_product_def split: sum.splits)
  moreover from ff have "link_path p = url_path u"
    by (auto simp: link_path_def dest: fill_fields_Link)
  ultimately show ?thesis by (simp add: process_listing_def)
qed

lemma fetch_loop_spec:
  "list_all (\<lambda>v. listing_product v \<noteq> None) ls \<Longrightarrow>
   fetch_loop m acc ls =
     (FetchOk (acc @ first_fresh m (map (the \<circ> listing_product) ls)),
      mark_all m (first_fresh m (map (the \<circ> listing_product) ls)))"
proof (induction ls arbitrary: m acc)
  case Nil
  then show ?case by (simp add: first_fresh_Nil mark_all_def)
next
  case (Cons v vs)
  then obtain p where p: "listing_product v = Some p" and rest: "list_all (\<lambda>v. listing_product v \<noteq> None) vs"
    by auto
  show ?case
    using Cons.IH [OF rest] p
    by (simp add: process_listing_product [OF p] first_fresh_Cons mark_all_Cons)
qed


subsection \<open>Properties\<close>

text \<open>C6: Refinement of the batch specification: on a page whose listings all describe a
  product, \<open>fetchMoreProducts\<close> returns exactly \<open>first_fresh\<close> of the page (the
  products whose identifier is not processed and not repeated from an earlier listing,
  in page order) and leaves \<open>Processed\<close> as the old map with exactly those identifiers
  marked.\<close>

theorem fetchMoreProducts_refines:
  assumes "list_all (\<lambda>v. listing_product v \<noteq> None) ls"
  shows "fetchMoreProducts (Inr ls) m =
           (FetchOk (first_fresh m (map (the \<circ> listing_product) ls)),
            mark_all m (first_fresh m (map (the \<circ> listing_product) ls)))"
  using fetch_loop_spec [OF assms, of m "[]"] by (simp add: fetchMoreProducts_def)

theorem fetchMoreProducts_refines_witness:
  "fetchMoreProducts (Inr [\<lparr>href_attr = Inr ''/item/1'', item_container = Inr [Inr ''$5'', Inr ''Lamp'']\<rparr>, \<lparr>href_attr = Inr ''/item/1?ref=feed'', item_container = Inr [Inr ''$5'', Inr ''Lamp'']\<rparr>, \<lparr>href_attr = Inr ''/item/2'', item_container = Inr [Inr ''FREE'', Inr ''Chair'']\<rparr>]) [''/item/2'' \<mapsto> True] =
     (FetchOk (first_fresh [''/item/2'' \<mapsto> True] (map (the \<circ> listing_product) [\<lparr>href_attr = Inr ''/item/1'', item_container = Inr [Inr ''$5'', Inr ''Lamp'']\<rparr>, \<lparr>href_attr = Inr ''/item/1?ref=feed'', item_container = Inr [Inr ''$5'', Inr ''Lamp'']\<rparr>, \<lparr>href_attr = Inr ''/item/2'', item_container = Inr [Inr ''FREE'', Inr ''Chair'']\<rparr>])),
      mark_all [''/item/2'' \<mapsto> True] (first_fresh [''/item/2'' \<mapsto> True] (map (the \<circ> listing_product) [\<lparr>href_attr = Inr ''/item/1'', item_container = Inr [Inr ''$5'', Inr ''Lamp'']\<rparr>, \<lparr>href_attr = Inr ''/item/1?ref=feed'', item_container = Inr [Inr ''$5'', Inr ''Lamp'']\<rparr>, \<lparr>href_attr = Inr ''/item/2'', item_container = Inr [Inr ''FREE'', Inr ''Chair'']\<rparr>])))
   \<and> length (first_fresh [''/item/2'' \<mapsto> True] (map (the \<circ> listing_product) [\<lparr>href_attr = Inr ''/item/1'', item_container = Inr [Inr ''$5'', Inr ''Lamp'']\<rparr>, \<lparr>href_attr = Inr ''/item/1?ref=feed'', item_container = Inr [Inr ''$5'', Inr ''Lamp'']\<rparr>, \<lparr>href_attr = Inr ''/item/2'', item_container = Inr [Inr ''FREE'', Inr ''Chair'']\<rparr>])) = 1"
proof -
  have h: "list_all (\<lambda>v. listing_product v \<noteq> None) [\<lparr>href_attr = Inr ''/item/1'', item_container = Inr [Inr ''$5'', Inr ''Lamp'']\<rparr>, \<lparr>href_attr = Inr ''/item/1?ref=feed'', item_container = Inr [Inr ''$5'', Inr ''Lamp'']\<rparr>, \<lparr>href_attr = Inr ''/item/2'', item_container = Inr [Inr ''FREE'', Inr ''Chair'']\<rparr>]"
    by (simp add: go_defs word_le_nat_alt word_less_nat_alt)
  have n: "length (first_fresh [''/item/2'' \<mapsto> True] (map (the \<circ> listing_product) [\<lparr>href_attr = Inr ''/item/1'', item_container = Inr [Inr ''$5'', Inr ''Lamp'']\<rparr>, \<lparr>href_attr = Inr ''/item/1?ref=feed'', item_container = Inr [Inr ''$5'', Inr ''Lamp'']\<rparr>, \<lparr>href_attr = Inr ''/item/2'', item_container = Inr [Inr ''FREE'', Inr ''Chair'']\<rparr>])) = 1"
    by (simp add: go_defs word_le_nat_alt word_less_nat_alt)
  from fetchMoreProducts_refines [OF h] n show ?thesis by (rule conjI)
qed

text \<open>C28: Products lost on an error: when a listing's \<open>href\<close> cannot be read after
  listings that were processed normally, \<open>fetchMoreProducts\<close> returns \<open>nil\<close> and the
  error, yet the identifiers of the products it had collected stay marked in
  \<open>Processed\<close>: those products are dropped and every later call skips them.\<close>

theorem fetchMoreProducts_error_marks_dropped:
  assumes "list_all (\<lambda>v. listing_product v \<noteq> None) ls" and "href_attr v = Inl err"
  shows "fetchMoreProducts (Inr (ls @ v # vs)) m =
           (FetchErr [] err, mark_all m (first_fresh m (map (the \<circ> listing_product) ls)))"
  using fetch_loop_spec [OF assms(1), of m "[]"] assms(2)
  by (simp add: fetchMoreProducts_def fetch_loop_append process_listing_def)

theorem fetchMoreProducts_error_marks_dropped_witness:
  "fetchMoreProducts (Inr ([\<lparr>href_attr = Inr ''/item/1'', item_container = Inr [Inr ''$5'', Inr ''Lamp'']\<rparr>, \<lparr>href_attr = Inr ''/item/2'', item_container = Inr [Inr ''FREE'', Inr ''Chair'']\<rparr>] @ \<lparr>href_attr = Inl (DriverError ''stale element''), item_container = Inr []\<rparr> # [])) Map.empty =
     (FetchErr [] (DriverError ''stale element''),
      mark_all Map.empty (first_fresh Map.empty (map (the \<circ> listing_product) [\<lparr>href_attr = Inr ''/item/1'', item_container = Inr [Inr ''$5'', Inr ''Lamp'']\<rparr>, \<lparr>href_attr = Inr ''/item/2'', item_container = Inr [Inr ''FREE'', Inr ''Chair'']\<rparr>])))
   \<and> processed_get (mark_all Map.empty (first_fresh Map.empty (map (the \<circ> listing_product) [\<lparr>href_attr = Inr ''/item/1'', item_container = Inr [Inr ''$5'', Inr ''Lamp'']\<rparr>, \<lparr>href_attr = Inr ''/item/2'', item_container = Inr [Inr ''FREE'', Inr ''Chair'']\<rparr>]))) ''/item/1''"
proof -
  have h: "list_all (\<lambda>v. listing_product v \<noteq> None) [\<lparr>href_attr = Inr ''/item/1'', item_container = Inr [Inr ''$5'', Inr ''Lamp'']\<rparr>, \<lparr>href_attr = Inr ''/item/2'', item_container = Inr [Inr ''FREE'', Inr ''Chair'']\<rparr>]"
    "href_attr \<lparr>href_attr = Inl (DriverError ''stale element''), item_container = Inr []\<rparr> = Inl (DriverError ''stale element'')"
    by (simp_all add: go_defs word_le_nat_alt word_less_nat_alt)
  have k: "processed_get (mark_all Map.empty (first_fresh Map.empty (map (the \<circ> listing_product) [\<lparr>href_attr = Inr ''/item/1'', item_container = Inr [Inr ''$5'', Inr ''Lamp'']\<rparr>, \<lparr>href_attr = Inr ''/item/2'', item_container = Inr [Inr ''FREE'', Inr ''Chair'']\<rparr>]))) ''/item/1''"
    by (simp add: go_defs mark_all_def word_le_nat_alt word_less_nat_alt)
  from fetchMoreProducts_error_marks_dropped [OF h] k show ?thesis by (rule conjI)
qed

end
