(* ===== verification/Pipeline.thy ===== *)
theory Pipeline
  imports Producer
begin

text \<open>
  The abstract contract of the scraper's stream, the way its users read it: a queue of
  products produced in batches and delivered in order, a set of identifiers already
  seen, and whether the producer has stopped. A batch is produced only while the
  producer runs, with pairwise distinct identifiers none of which was seen; the head of
  the queue can be delivered at any time; the producer can stop, possibly marking some
  identifiers as seen without ever producing them. The goroutine of \<open>Scraper.Start\<close>
  with the channel and the consumer (theory \<open>Producer\<close>) refines this contract: under
  \<open>abs_world\<close> (received products, buffered products followed by the rest of the current
  batch, the identifiers \<open>Processed\<close> maps to \<open>true\<close>, the goroutine no longer in its
  loop) every event is a step of the contract or leaves the abstract state unchanged.
\<close>

record spec_state =
  sp_delivered :: "product list"
  sp_queue :: "product list"
  sp_seen :: "string set"
  sp_halted :: bool

inductive spec_step :: "spec_state \<Rightarrow> spec_state \<Rightarrow> bool" where
  produce: "\<not> sp_halted a \<Longrightarrow> distinct (map link_path new)
    \<Longrightarrow> (\<forall>p\<in>set new. link_path p \<notin> sp_seen a)
    \<Longrightarrow> spec_step a (a\<lparr>sp_queue := sp_queue a @ new, sp_seen := sp_seen a \<union> link_path ` set new\<rparr>)"
| deliver: "sp_queue a = p # q
    \<Longrightarrow> spec_step a (a\<lparr>sp_delivered := sp_delivered a @ [p], sp_queue := q\<rparr>)"
| halt: "\<not> sp_halted a \<Longrightarrow> distinct (map link_path lost)
    \<Longrightarrow> (\<forall>p\<in>set lost. link_path p \<notin> sp_seen a)
    \<Longrightarrow> spec_step a (a\<lparr>sp_seen := sp_seen a \<union> link_path ` set lost, sp_halted := True\<rparr>)"

definition abs_world :: "world \<Rightarrow> spec_state" where
  "abs_world w =
     \<lparr>sp_delivered = received w,
      sp_queue = buf (Products (scr w)) @ pending w,
      sp_seen = {k. processed_get (Processed (scr w)) k},
      sp_halted = (case gor w of Looping _ \<Rightarrow> False | _ \<Rightarrow> True)\<rparr>"

text \<open>What the contract promises its consumer: the delivered products followed by the
  queued ones have pairwise distinct identifiers, all of them seen.\<close>

definition spec_inv :: "spec_state \<Rightarrow> bool" where
  "spec_inv a \<longleftrightarrow> distinct (map link_path (sp_delivered a @ sp_queue a))
     \<and> link_path ` set (sp_delivered a @ sp_queue a) \<subseteq> sp_seen a"

subsection \<open>Each event is a step of the contract\<close>

lemma spec_step_produceI:
  "\<not> sp_halted a \<Longrightarrow> distinct (map link_path new) \<Longrightarrow> (\<forall>p\<in>set new. link_path p \<notin> sp_seen a)
   \<Longrightarrow> b = a\<lparr>sp_queue := sp_queue a @ new, sp_seen := sp_seen a \<union> link_path ` set new\<rparr>
   \<Longrightarrow> spec_step a b"
  by (simp add: spec_step.produce)

lemma spec_step_deliverI:
  "sp_queue a = p # q \<Longrightarrow> b = a\<lparr>sp_delivered := sp_delivered a @ [p], sp_queue := q\<rparr>
   \<Longrightarrow> spec_step a b"
  by (simp add: spec_step.deliver)

lemma spec_step_haltI:
  "\<not> sp_halted a \<Longrightarrow> distinct (map link_path lost) \<Longrightarrow> (\<forall>p\<in>set lost. link_path p \<notin> sp_seen a)
   \<Longrightarrow> b = a\<lparr>sp_seen := sp_seen a \<union> link_path ` set lost, sp_halted := True\<rparr>
   \<Longrightarrow> spec_step a b"
  by (simp add: spec_step.halt)

lemma seen_mark_all:
  "{k. processed_get (mark_all m new) k} = {k. processed_get m k} \<union> link_path ` set new"
  by (auto simp: processed_get_mark_all)

lemma receive_spec:
  assumes "consumer_receive w = Some w'"
  shows "spec_step (abs_world w) (abs_world w') \<or> abs_world w' = abs_world w"
  using assms
proof (cases rule: consumer_receive_cases)
  case (sender p ps)
  then show ?thesis
    by (intro disjI1 spec_step_deliverI [of _ "hd (buf (Products (scr w)) @ [p])"
          "buf (Products (scr w')) @ ps"])
       (simp_all add: abs_world_def pending_def)
next
  case (buffered v)
  then show ?thesis
    by (intro disjI1 spec_step_deliverI [of _ v "buf (Products (scr w')) @ pending w"])
       (simp_all add: abs_world_def pending_def)
next
  case eos
  then show ?thesis by simp
qed

lemma fetch_spec:
  assumes "fetchMoreProducts pg (Processed (scr w)) = (r, m')" and "gor w = Looping []"
    and "w' = w\<lparr>gor := g, scr := (scr w)\<lparr>Processed := m'\<rparr>, fetched := f\<rparr>"
    and "g = (case r of FetchOk ps \<Rightarrow> Looping ps | FetchErr _ _ \<Rightarrow> Returned | FetchPanic pn \<Rightarrow> Panicked pn)"
  shows "spec_step (abs_world w) (abs_world w') \<or> abs_world w' = abs_world w"
proof -
  obtain new where new: "m' = mark_all (Processed (scr w)) new" "distinct (map link_path new)"
      "\<forall>p\<in>set new. \<not> processed_get (Processed (scr w)) (link_path p)"
      "case r of FetchOk ps \<Rightarrow> ps = new | FetchErr ps _ \<Rightarrow> ps = new \<or> ps = [] | FetchPanic _ \<Rightarrow> True"
    using fetchMoreProducts_new [OF assms(1)] by blast
  show ?thesis
  proof (cases r)
    case (FetchOk ps)
    with new assms(2,3,4) show ?thesis
      by (intro disjI1 spec_step_produceI [of _ new])
         (simp_all add: abs_world_def pending_def seen_mark_all)
  next
    case (FetchErr ps e)
    with new assms(2,3,4) show ?thesis
      by (intro disjI1 spec_step_haltI [of _ new])
         (simp_all add: abs_world_def pending_def seen_mark_all)
  next
    case (FetchPanic pn)
    with new assms(2,3,4) show ?thesis
      by (intro disjI1 spec_step_haltI [of _ new])
         (simp_all add: abs_world_def pending_def seen_mark_all)
  qed
qed


lemma select_spec:
  assumes "gor w = Looping []" and "goroutine_step w pg = Some w'"
  shows "spec_step (abs_world w) (abs_world w') \<or> abs_world w' = abs_world w"
proof (cases "ctx_done w")
  case True
  with assms show ?thesis
    by (cases "closed (Products (scr w))")
       (auto simp: loop_select_def chan_close_def abs_world_def pending_def
          intro!: spec_step_haltI [of _ "[]"])
next
  case False
  show ?thesis
  proof (cases "length (buf (Products (scr w))) < 32")
    case True
    obtain r m' where fm: "fetchMoreProducts pg (Processed (scr w)) = (r, m')" by fastforce
    have "w' = w\<lparr>gor := (case r of FetchOk ps \<Rightarrow> Looping ps | FetchErr _ _ \<Rightarrow> Returned
                                 | FetchPanic pn \<Rightarrow> Panicked pn),
                     scr := (scr w)\<lparr>Processed := m'\<rparr>,
                     fetched := fetched w @ (case r of FetchOk ps \<Rightarrow> if ps = [] then [] else [ps]
                                               | _ \<Rightarrow> [])\<rparr>"
      using assms False True fm
      by (cases r) (auto simp: loop_select_def split: if_splits)
    from fetch_spec [OF fm assms(1) this refl] show ?thesis .
  next
    case full: False
    with assms False show ?thesis by (auto simp: loop_select_def abs_world_def pending_def)
  qed
qed

lemma send_spec:
  assumes "inv_ctl w" and "gor w = Looping (p # ps)" and "goroutine_step w pg = Some w'"
  shows "abs_world w' = abs_world w"
proof -
  from assms(1,2) have "\<not> closed (Products (scr w))" by (auto simp: inv_ctl_def)
  with assms(2,3) show ?thesis
    by (auto simp: chan_send_def abs_world_def pending_def split: if_splits)
qed

lemma world_step_spec:
  assumes "inv_ctl w" and "world_step w e = Some w'"
  shows "spec_step (abs_world w) (abs_world w') \<or> abs_world w' = abs_world w"
proof (cases e)
  case Cancel
  with assms(2) show ?thesis by (auto simp: abs_world_def pending_def)
next
  case Receive
  with assms(2) show ?thesis by (simp add: receive_spec)
next
  case (Step pg)
  with assms(2) have st: "goroutine_step w pg = Some w'" by simp
  show ?thesis
  proof (cases "gor w")
    case (Looping ps)
    then show ?thesis
    proof (cases ps)
      case Nil
      with Looping st show ?thesis by (simp add: select_spec)
    next
      case (Cons p ps')
      with Looping assms(1) st show ?thesis by (simp add: send_spec)
    qed
  next
    case Returned
    with st show ?thesis by simp
  next
    case (Panicked pn)
    with st show ?thesis by simp
  qed
qed



subsection \<open>What the contract guarantees\<close>

lemma spec_inv_step: "spec_step a b \<Longrightarrow> spec_inv a \<Longrightarrow> spec_inv b"
  by (induction rule: spec_step.induct) (auto simp: spec_inv_def)

lemma spec_inv_steps: "spec_step\<^sup>*\<^sup>* a b \<Longrightarrow> spec_inv a \<Longrightarrow> spec_inv b"
  by (induction rule: rtranclp_induct) (auto intro: spec_inv_step)

lemma spec_inv_start: "fresh_chan s \<Longrightarrow> spec_inv (abs_world (start_world s))"
  by (simp add: spec_inv_def abs_world_def start_world_def pending_def fresh_chan_def)

lemma reachable_contract:
  assumes "reachable s w" and "fresh_chan s"
  shows "spec_step\<^sup>*\<^sup>* (abs_world (start_world s)) (abs_world w)"
  using assms
proof (induction rule: reachable.induct)
  case start
  then show ?case by simp
next
  case (step w e w')
  have "inv_ctl w" using step.hyps(1) step.prems by (rule reachable_inv_ctl)
  then have "spec_step (abs_world w) (abs_world w') \<or> abs_world w' = abs_world w"
    using step.hyps(2) by (rule world_step_spec)
  with step.IH [OF step.prems] show ?case by (auto intro: rtranclp.rtrancl_into_rtrancl)
qed

text \<open>The contract carries the delivery guarantees to the implementation: received,
  buffered and pending products have distinct identifiers, all processed.\<close>

lemma reachable_spec_inv: "reachable s w \<Longrightarrow> fresh_chan s \<Longrightarrow> spec_inv (abs_world w)"
  using reachable_contract spec_inv_steps spec_inv_start by blast

subsection \<open>Properties\<close>

text \<open>C4: Refinement: every run of the goroutine of \<open>Start\<close>, the channel and the consumer,
  from a fresh channel, is seen through \<open>abs_world\<close> as a run of the contract: a
  sequence of batches of fresh, distinct products, in-order deliveries and a stop.\<close>

theorem start_refines_contract:
  assumes "reachable s w" and "fresh_chan s"
  shows "spec_step\<^sup>*\<^sup>* (abs_world (start_world s)) (abs_world w)"
  using assms by (rule reachable_contract)

theorem start_refines_contract_witness:
  "spec_step\<^sup>*\<^sup>* (abs_world (start_world \<lparr>Processed = Map.empty, Products = \<lparr>buf = [], chan_cap = 0, closed = False\<rparr>\<rparr>)) (abs_world (the (run (start_world \<lparr>Processed = Map.empty, Products = \<lparr>buf = [], chan_cap = 0, closed = False\<rparr>\<rparr>)
        [Step (Inr [\<lparr>href_attr = Inr ''/item/1'', item_container = Inr [Inr ''FREE'', Inr ''Bike'']\<rparr>]), Receive, Cancel, Step (Inr []), Step (Inr [])])))"
proof -
  have r: "run (start_world \<lparr>Processed = Map.empty, Products = \<lparr>buf = [], chan_cap = 0, closed = False\<rparr>\<rparr>)
        [Step (Inr [\<lparr>href_attr = Inr ''/item/1'', item_container = Inr [Inr ''FREE'', Inr ''Bike'']\<rparr>]), Receive, Cancel, Step (Inr []), Step (Inr [])] = Some (the (run (start_world \<lparr>Processed = Map.empty, Products = \<lparr>buf = [], chan_cap = 0, closed = False\<rparr>\<rparr>)
        [Step (Inr [\<lparr>href_attr = Inr ''/item/1'', item_container = Inr [Inr ''FREE'', Inr ''Bike'']\<rparr>]), Receive, Cancel, Step (Inr []), Step (Inr [])]))"
    by (simp add: go_defs)
  have reach: "reachable (\<lparr>Processed = Map.empty, Products = \<lparr>buf = [], chan_cap = 0, closed = False\<rparr>\<rparr>) (the (run (start_world \<lparr>Processed = Map.empty, Products = \<lparr>buf = [], chan_cap = 0, closed = False\<rparr>\<rparr>)
        [Step (Inr [\<lparr>href_attr = Inr ''/item/1'', item_container = Inr [Inr ''FREE'', Inr ''Bike'']\<rparr>]), Receive, Cancel, Step (Inr []), Step (Inr [])]))"
    using r by (rule reachable_run)
  have f: "fresh_chan (\<lparr>Processed = Map.empty, Products = \<lparr>buf = [], chan_cap = 0, closed = False\<rparr>\<rparr>)" by (simp add: fresh_chan_def)
  from start_refines_contract [OF reach f] show ?thesis .
qed

end
