(* ===== verification/Product_Wf.thy ===== *)
theory Product_Wf
  imports Producer
begin

text \<open>
  Well-formedness of the \<open>Product\<close> values the scraper produces, as a predicate on the
  record: the currency holds no decimal digit (it is the first group \<open>[^\d]+\<close> of the
  price regular expression, or empty), and an empty currency comes with a zero price
  (the \<open>"FREE"\<close> case, or a listing without text fragments where the zero value of the
  struct is kept). The theory proves that \<open>extractFirstCurrency\<close>, the field loop and
  \<open>fetchMoreProducts\<close> only build well-formed products, and that every product in
  flight in a run of \<open>Start\<close> (received, buffered or still to be sent) is well-formed.
\<close>

definition product_wf :: "product \<Rightarrow> bool" where
  "product_wf p \<longleftrightarrow> list_all (\<lambda>c. \<not> is_digit c) (Currency p) \<and> (Currency p = [] \<longrightarrow> Price p = 0)"

subsection \<open>Every constructor of a product keeps it well-formed\<close>

lemma extractFirstCurrency_wf:
  assumes "extractFirstCurrency s = Inr (cur, v)"
  shows "list_all (\<lambda>c. \<not> is_digit c) cur \<and> (cur = [] \<longrightarrow> v = 0)"
proof (cases "s = ''FREE''")
  case True
  with assms show ?thesis by (simp add: extractFirstCurrency_def)
next
  case False
  with assms obtain num where "re_price_submatch s = Some (cur, num)"
    by (auto simp: extractFirstCurrency_def split: option.splits sum.splits)
  then have "cur \<noteq> [] \<and> list_all (\<lambda>c. \<not> is_digit c) cur \<and> (\<exists>r. s = cur @ r)"
    unfolding re_price_submatch_def by (rule re_price_try_first_nondigit)
  then show ?thesis by simp
qed

lemma fill_fields_wf:
  "fill_fields p i ts = Inr p' \<Longrightarrow> product_wf p \<Longrightarrow> product_wf p'"
proof (induction p i ts rule: fill_fields.induct)
  case (1 p i)
  then show ?case by simp
next
  case (2 p i t ts)
  show ?case
  proof (cases t)
    case (Inl e)
    with "2.prems" show ?thesis by simp
  next
    case (Inr str)
    show ?thesis
    proof (cases "i = 0")
      case True
      with Inr "2.prems"(1) obtain cur v where ex: "extractFirstCurrency str = Inr (cur, v)"
        and rest: "fill_fields (p\<lparr>Currency := cur, Price := v\<rparr>) (Suc i) ts = Inr p'"
        by (auto split: sum.splits)
      have "product_wf (p\<lparr>Currency := cur, Price := v\<rparr>)"
        using extractFirstCurrency_wf [OF ex] by (simp add: product_wf_def)
      with "2.IH"(1) [OF Inr True ex refl rest] show ?thesis by simp
    next
      case False
      with Inr "2.prems" "2.IH"(2-4) show ?thesis
        by (auto simp: product_wf_def split: if_splits)
    qed
  qed
qed

lemma process_listing_wf:
  assumes "process_listing m v = Append p m'"
  shows "product_wf p"
proof -
  from assms obtain u texts where ff: "fill_fields (zero_product\<lparr>Link := u\<rparr>) 0 texts = Inr p"
    by (auto simp: process_listing_def split: sum.splits if_splits)
  have "product_wf (zero_product\<lparr>Link := u\<rparr>)" by (simp add: product_wf_def zero_product_def)
  with ff show ?thesis by (rule fill_fields_wf)
qed

lemma fetch_loop_wf:
  "fetch_loop m acc ls = (FetchOk ps, m') \<Longrightarrow> list_all product_wf acc \<Longrightarrow> list_all product_wf ps"
  by (induction m acc ls rule: fetch_loop.induct)
     (auto split: listing_outcome.splits dest: process_listing_wf)

lemma fetchMoreProducts_wf:
  "fetchMoreProducts pg m = (FetchOk ps, m') \<Longrightarrow> list_all product_wf ps"
  by (auto simp: fetchMoreProducts_def split: sum.splits intro: fetch_loop_wf)

lemma reachable_wf:
  "reachable s w \<Longrightarrow> fresh_chan s \<Longrightarrow> list_all product_wf (in_flight w)"
proof (induction rule: reachable.induct)
  case start
  then show ?case by (simp add: start_world_def in_flight_def pending_def fresh_chan_def)
next
  case (step w e w')
  have "inv_ctl w" using step.hyps(1) step.prems by (rule reachable_inv_ctl)
  with step.hyps(2) step.IH step.prems show ?case
    using world_step_in_flight fetchMoreProducts_wf by fastforce
qed


subsection \<open>Properties\<close>

text \<open>C10: Type invariant of the stream: in every run of \<open>Start\<close> from a fresh channel,
  every product received by the consumer, buffered in the channel or still to be sent
  has a currency without digits and a zero price when its currency is empty.\<close>

theorem start_products_wf:
  assumes "reachable s w" and "fresh_chan s"
  shows "list_all product_wf (received w @ buf (Products (scr w)) @ pending w)"
  using reachable_wf [OF assms] by (simp add: in_flight_def)

theorem start_products_wf_witness:
  "list_all product_wf (received (the (run (start_world \<lparr>Processed = Map.empty, Products = \<lparr>buf = [], chan_cap = 0, closed = False\<rparr>\<rparr>)
        [Step (Inr [\<lparr>href_attr = Inr ''/item/1'', item_container = Inr [Inr ''$5'', Inr ''Lamp'']\<rparr>, \<lparr>href_attr = Inr ''/item/2'', item_container = Inr [Inr ''FREE'', Inr ''Chair'']\<rparr>]), Receive])) @ buf (Products (scr (the (run (start_world \<lparr>Processed = Map.empty, Products = \<lparr>buf = [], chan_cap = 0, closed = False\<rparr>\<rparr>)
        [Step (Inr [\<lparr>href_attr = Inr ''/item/1'', item_container = Inr [Inr ''$5'', Inr ''Lamp'']\<rparr>, \<lparr>href_attr = Inr ''/item/2'', item_container = Inr [Inr ''FREE'', Inr ''Chair'']\<rparr>]), Receive])))) @ pending (the (run (start_world \<lparr>Processed = Map.empty, Products = \<lparr>buf = [], chan_cap = 0, closed = False\<rparr>\<rparr>)
        [Step (Inr [\<lparr>href_attr = Inr ''/item/1'', item_container = Inr [Inr ''$5'', Inr ''Lamp'']\<rparr>, \<lparr>href_attr = Inr ''/item/2'', item_container = Inr [Inr ''FREE'', Inr ''Chair'']\<rparr>]), Receive])))
   \<and> length (received (the (run (start_world \<lparr>Processed = Map.empty, Products = \<lparr>buf = [], chan_cap = 0, closed = False\<rparr>\<rparr>)
        [Step (Inr [\<lparr>href_attr = Inr ''/item/1'', item_container = Inr [Inr ''$5'', Inr ''Lamp'']\<rparr>, \<lparr>href_attr = Inr ''/item/2'', item_container = Inr [Inr ''FREE'', Inr ''Chair'']\<rparr>]), Receive])) @ buf (Products (scr (the (run (start_world \<lparr>Processed = Map.empty, Products = \<lparr>buf = [], chan_cap = 0, closed = False\<rparr>\<rparr>)
        [Step (Inr [\<lparr>href_attr = Inr ''/item/1'', item_container = Inr [Inr ''$5'', Inr ''Lamp'']\<rparr>, \<lparr>href_attr = Inr ''/item/2'', item_container = Inr [Inr ''FREE'', Inr ''Chair'']\<rparr>]), Receive])))) @ pending (the (run (start_world \<lparr>Processed = Map.empty, Products = \<lparr>buf = [], chan_cap = 0, closed = False\<rparr>\<rparr>)
        [Step (Inr [\<lparr>href_attr = Inr ''/item/1'', item_container = Inr [Inr ''$5'', Inr ''Lamp'']\<rparr>, \<lparr>href_attr = Inr ''/item/2'', item_container = Inr [Inr ''FREE'', Inr ''Chair'']\<rparr>]), Receive]))) = 2"
proof -
  have r: "run (start_world \<lparr>Processed = Map.empty, Products = \<lparr>buf = [], chan_cap = 0, closed = False\<rparr>\<rparr>)
        [Step (Inr [\<lparr>href_attr = Inr ''/item/1'', item_container = Inr [Inr ''$5'', Inr ''Lamp'']\<rparr>, \<lparr>href_attr = Inr ''/item/2'', item_container = Inr [Inr ''FREE'', Inr ''Chair'']\<rparr>]), Receive] = Some (the (run (start_world \<lparr>Processed = Map.empty, Products = \<lparr>buf = [], chan_cap = 0, closed = False\<rparr>\<rparr>)
        [Step (Inr [\<lparr>href_attr = Inr ''/item/1'', item_container = Inr [Inr ''$5'', Inr ''Lamp'']\<rparr>, \<lparr>href_attr = Inr ''/item/2'', item_container = Inr [Inr ''FREE'', Inr ''Chair'']\<rparr>]), Receive]))"
    by (simp add: go_defs word_le_nat_alt word_less_nat_alt)
  have reach: "reachable (\<lparr>Processed = Map.empty, Products = \<lparr>buf = [], chan_cap = 0, closed = False\<rparr>\<rparr>) (the (run (start_world \<lparr>Processed = Map.empty, Products = \<lparr>buf = [], chan_cap = 0, closed = False\<rparr>\<rparr>)
        [Step (Inr [\<lparr>href_attr = Inr ''/item/1'', item_container = Inr [Inr ''$5'', Inr ''Lamp'']\<rparr>, \<lparr>href_attr = Inr ''/item/2'', item_container = Inr [Inr ''FREE'', Inr ''Chair'']\<rparr>]), Receive]))"
    using r by (rule reachable_run)
  have f: "fresh_chan (\<lparr>Processed = Map.empty, Products = \<lparr>buf = [], chan_cap = 0, closed = False\<rparr>\<rparr>)" by (simp add: fresh_chan_def)
  have n: "length (received (the (run (start_world \<lparr>Processed = Map.empty, Products = \<lparr>buf = [], chan_cap = 0, closed = False\<rparr>\<rparr>)
        [Step (Inr [\<lparr>href_attr = Inr ''/item/1'', item_container = Inr [Inr ''$5'', Inr ''Lamp'']\<rparr>, \<lparr>href_attr = Inr ''/item/2'', item_container = Inr [Inr ''FREE'', Inr ''Chair'']\<rparr>]), Receive])) @ buf (Products (scr (the (run (start_world \<lparr>Processed = Map.empty, Products = \<lparr>buf = [], chan_cap = 0, closed = False\<rparr>\<rparr>)
        [Step (Inr [\<lparr>href_attr = Inr ''/item/1'', item_container = Inr [Inr ''$5'', Inr ''Lamp'']\<rparr>, \<lparr>href_attr = Inr ''/item/2'', item_container = Inr [Inr ''FREE'', Inr ''Chair'']\<rparr>]), Receive])))) @ pending (the (run (start_world \<lparr>Processed = Map.empty, Products = \<lparr>buf = [], chan_cap = 0, closed = False\<rparr>\<rparr>)
        [Step (Inr [\<lparr>href_attr = Inr ''/item/1'', item_container = Inr [Inr ''$5'', Inr ''Lamp'']\<rparr>, \<lparr>href_attr = Inr ''/item/2'', item_container = Inr [Inr ''FREE'', Inr ''Chair'']\<rparr>]), Receive]))) = 2"
    by (simp add: go_defs pending_def word_le_nat_alt word_less_nat_alt)
  from start_products_wf [OF reach f] n show ?thesis by (rule conjI)
qed

end
