(* ===== verification/Blocking.thy ===== *)
theory Blocking
  imports Producer
begin

text \<open>
  What the goroutine of \<open>Start\<close> does when its consumer stops reading. The send
  \<open>i.Products <- product\<close> is a plain channel send, not a case of the \<open>select\<close> on
  \<open>ctx.Done()\<close>: once the buffer is full (at once, for the unbuffered channel of
  \<open>NewInstance\<close>) the goroutine waits for a receiver, and no cancellation and no
  number of scheduling steps moves it. The channel is then never closed, so a consumer
  that comes back after cancelling sees no end of the stream either.
\<close>

lemma blocked_send_step:
  assumes "inv_ctl w" and "gor w = Looping (p # ps)"
    and "chan_cap (Products (scr w)) \<le> length (buf (Products (scr w)))"
  shows "world_step w (Step pg) = None"
proof -
  from assms(1,2) have "\<not> closed (Products (scr w))" by (auto simp: inv_ctl_def)
  with assms(2,3) show ?thesis by (simp add: chan_send_def)
qed

lemma blocked_send_run:
  "inv_ctl w \<Longrightarrow> gor w = Looping (p # ps)
   \<Longrightarrow> chan_cap (Products (scr w)) \<le> length (buf (Products (scr w)))
   \<Longrightarrow> Receive \<notin> set es \<Longrightarrow> run w es = Some w'
   \<Longrightarrow> inv_ctl w' \<and> gor w' = Looping (p # ps) \<and> Products (scr w') = Products (scr w)"
proof (induction es arbitrary: w)
  case Nil
  then show ?case by simp
next
  case (Cons e es)
  show ?case
  proof (cases e)
    case Cancel
    have "inv_ctl (w\<lparr>ctx_done := True\<rparr>)"
      using Cons.prems(1) by (rule inv_ctl_step [where e = Cancel]) simp
    with Cons.IH [of "w\<lparr>ctx_done := True\<rparr>"] Cons.prems Cancel show ?thesis by simp
  next
    case Receive
    with Cons.prems(4) show ?thesis by simp
  next
    case (Step pg)
    with blocked_send_step [OF Cons.prems(1-3)] Cons.prems(5) show ?thesis by simp
  qed
qed


subsection \<open>Properties\<close>

text \<open>C14: A goroutine blocked on a send ignores cancellation: from a reachable world where
  it is sending a product into a full buffer, every sequence of events without a
  receive (cancellations and scheduling steps) leaves it blocked on that same send, the
  channel unchanged and open, and its next step impossible; it never closes the
  channel, so it leaks when the consumer stops reading.\<close>

theorem start_blocked_send_ignores_cancel:
  assumes "reachable s w" and "fresh_chan s" and "gor w = Looping (p # ps)"
    and "chan_cap (Products (scr w)) \<le> length (buf (Products (scr w)))"
    and "Receive \<notin> set es" and "run w es = Some w'"
  shows "gor w' = Looping (p # ps) \<and> Products (scr w') = Products (scr w)
         \<and> \<not> closed (Products (scr w')) \<and> world_step w' (Step pg) = None"
proof -
  have inv: "inv_ctl w" using assms(1,2) by (rule reachable_inv_ctl)
  then have nc: "\<not> closed (Products (scr w))" using assms(3) by (auto simp: inv_ctl_def)
  from blocked_send_run [OF inv assms(3-6)]
  have "inv_ctl w'" "gor w' = Looping (p # ps)" "Products (scr w') = Products (scr w)" by auto
  with nc assms(4) blocked_send_step [of w' p ps pg] show ?thesis by simp
qed

theorem start_blocked_send_ignores_cancel_witness:
  "gor (the (run (the (run (start_world \<lparr>Processed = Map.empty, Products = \<lparr>buf = [], chan_cap = 0, closed = False\<rparr>\<rparr>)
        [Step (Inr [\<lparr>href_attr = Inr ''/item/1'', item_container = Inr [Inr ''FREE'', Inr ''Bike'']\<rparr>])])) [Cancel, Cancel])) = Looping [\<lparr>Price = 0, Currency = [], Name = ''Bike'', Location = [],
       Link = empty_url\<lparr>url_path := ''/item/1''\<rparr>\<rparr>]
   \<and> \<not> closed (Products (scr (the (run (the (run (start_world \<lparr>Processed = Map.empty, Products = \<lparr>buf = [], chan_cap = 0, closed = False\<rparr>\<rparr>)
        [Step (Inr [\<lparr>href_attr = Inr ''/item/1'', item_container = Inr [Inr ''FREE'', Inr ''Bike'']\<rparr>])])) [Cancel, Cancel]))))
   \<and> world_step (the (run (the (run (start_world \<lparr>Processed = Map.empty, Products = \<lparr>buf = [], chan_cap = 0, closed = False\<rparr>\<rparr>)
        [Step (Inr [\<lparr>href_attr = Inr ''/item/1'', item_container = Inr [Inr ''FREE'', Inr ''Bike'']\<rparr>])])) [Cancel, Cancel])) (Step (Inr [])) = None"
proof -
  have r: "run (start_world \<lparr>Processed = Map.empty, Products = \<lparr>buf = [], chan_cap = 0, closed = False\<rparr>\<rparr>)
        [Step (Inr [\<lparr>href_attr = Inr ''/item/1'', item_container = Inr [Inr ''FREE'', Inr ''Bike'']\<rparr>])] = Some (the (run (start_world \<lparr>Processed = Map.empty, Products = \<lparr>buf = [], chan_cap = 0, closed = False\<rparr>\<rparr>)
        [Step (Inr [\<lparr>href_attr = Inr ''/item/1'', item_container = Inr [Inr ''FREE'', Inr ''Bike'']\<rparr>])]))"
    by (simp add: go_defs)
  have reach: "reachable (\<lparr>Processed = Map.empty, Products = \<lparr>buf = [], chan_cap = 0, closed = False\<rparr>\<rparr>) (the (run (start_world \<lparr>Processed = Map.empty, Products = \<lparr>buf = [], chan_cap = 0, closed = False\<rparr>\<rparr>)
        [Step (Inr [\<lparr>href_attr = Inr ''/item/1'', item_container = Inr [Inr ''FREE'', Inr ''Bike'']\<rparr>])]))"
    using r by (rule reachable_run)
  have f: "fresh_chan (\<lparr>Processed = Map.empty, Products = \<lparr>buf = [], chan_cap = 0, closed = False\<rparr>\<rparr>)" by (simp add: fresh_chan_def)
  have g: "gor (the (run (start_world \<lparr>Processed = Map.empty, Products = \<lparr>buf = [], chan_cap = 0, closed = False\<rparr>\<rparr>)
        [Step (Inr [\<lparr>href_attr = Inr ''/item/1'', item_container = Inr [Inr ''FREE'', Inr ''Bike'']\<rparr>])])) = Looping [\<lparr>Price = 0, Currency = [], Name = ''Bike'', Location = [],
       Link = empty_url\<lparr>url_path := ''/item/1''\<rparr>\<rparr>]"
    by (simp add: go_defs)
  have c: "chan_cap (Products (scr (the (run (start_world \<lparr>Processed = Map.empty, Products = \<lparr>buf = [], chan_cap = 0, closed = False\<rparr>\<rparr>)
        [Step (Inr [\<lparr>href_attr = Inr ''/item/1'', item_container = Inr [Inr ''FREE'', Inr ''Bike'']\<rparr>])])))) \<le> length (buf (Products (scr (the (run (start_world \<lparr>Processed = Map.empty, Products = \<lparr>buf = [], chan_cap = 0, closed = False\<rparr>\<rparr>)
        [Step (Inr [\<lparr>href_attr = Inr ''/item/1'', item_container = Inr [Inr ''FREE'', Inr ''Bike'']\<rparr>])])))))"
    by (simp add: go_defs)
  have e: "Receive \<notin> set [Cancel, Cancel]" by simp
  have r2: "run (the (run (start_world \<lparr>Processed = Map.empty, Products = \<lparr>buf = [], chan_cap = 0, closed = False\<rparr>\<rparr>)
        [Step (Inr [\<lparr>href_attr = Inr ''/item/1'', item_container = Inr [Inr ''FREE'', Inr ''Bike'']\<rparr>])])) [Cancel, Cancel] = Some (the (run (the (run (start_world \<lparr>Processed = Map.empty, Products = \<lparr>buf = [], chan_cap = 0, closed = False\<rparr>\<rparr>)
        [Step (Inr [\<lparr>href_attr = Inr ''/item/1'', item_container = Inr [Inr ''FREE'', Inr ''Bike'']\<rparr>])])) [Cancel, Cancel]))"
    by (simp add: go_defs)
  from start_blocked_send_ignores_cancel [OF reach f g c e r2, of "Inr []"] show ?thesis by blast
qed

end
