(* ===== verification/Spec2Isabelle.thy ===== *)
theory Spec2Isabelle
  imports Session Batch_Spec Pipeline Product_Wf Blocking
begin

text \<open>
  \<^bold>\<open>A verification model of fb-mktplc-scraper.\<close>

  The repository is a Go library (\<open>src/product.go\<close>, \<open>src/scraper.go\<close>) that scrapes
  Facebook Marketplace through a selenium WebDriver: \<open>NewInstance\<close> opens the browser
  session and dismisses the cookie and sign-in dialogues (\<open>handleCookiesAndDialogue\<close>,
  \<open>waitForElement\<close>); \<open>Start\<close> runs a goroutine that repeatedly calls
  \<open>fetchMoreProducts\<close>, which reads the listing elements of the page, skips those
  whose path is in the \<open>Processed\<close> map, parses their texts into a \<open>Product\<close>
  (the price through \<open>extractFirstCurrency\<close>) and marks them processed; the goroutine
  sends the products on the \<open>Products\<close> channel and closes the channel when the
  context is cancelled.

  \<^bold>\<open>Theories.\<close>
  \<^item> \<open>Prelude\<close>: \<open>uint64\<close> as \<open>64 word\<close>, Go strings as byte lists, the error and panic
    values of the program, byte classes, \<open>strings.Cut\<close>, shared lemmas, and the
    \<open>go_defs\<close> collection of definitions that the witnesses evaluate.
  \<^item> \<open>Strconv\<close>: \<open>strconv.ParseUint(s, 10, 64)\<close> (library code, modelled from its
    algorithm) as the loop on 64-bit words with the cutoff and wrap-around tests; proved
    equivalent to the arithmetic reference \<open>decimal_value\<close> (success exactly below
    \<open>2^64\<close>, range error above); \<open>strconv.FormatUint(u, 10)\<close> as \<open>format_bits\<close>
    (terminating by the measure \<open>unat u\<close>), with the round trips
    \<open>ParseUint (FormatUint u) = u\<close> for every \<open>u\<close> and \<open>FormatUint\<close> of a parsed
    canonical decimal giving it back.
  \<^item> \<open>Price\<close>: \<open>extractFirstCurrency\<close> (\<open>product.go\<close>): the literal \<open>"FREE"\<close>, the
    regular expression \<open>^([^\d]+)([\d,]+)\<close> with Go's leftmost-first semantics
    (\<open>re_price_try\<close> gives the greedy first group back one byte at a time),
    \<open>strings.ReplaceAll\<close> of the commas, and \<open>ParseUint\<close>. Proved: the closed form of
    the match, the result on every shape of input (price, overflow, digit first, no
    digit, \<open>"FREE"\<close>) and soundness of every success; the round trips of the display
    format (currency, then \<open>FormatUint\<close> grouped in thousands by \<open>group_thousands\<close>) in
    both directions.
  \<^item> \<open>Url\<close>: \<open>net/url.Parse\<close> (library code, modelled from the Go 1.22 source):
    control bytes, scheme, query, authority with userinfo and \<open>parseHost\<close> (IPv6
    literals with zones, ports, the bytes and escapes a host may hold), path and
    fragment decoding. Proved: the path, which is the dedup key, does not depend on the
    query string or the fragment, nor on the link being absolute or relative.
  \<^item> \<open>Fetch\<close>: \<open>Product\<close> as a record, the WebDriver's answers as data
    (\<open>listing_elem\<close>, \<open>page\<close>), \<open>Processed\<close> as a map \<open>string \<rightharpoonup> bool\<close> read with
    Go's zero value, and \<open>fetchMoreProducts\<close> as \<open>fetch_loop\<close> over the listings with
    \<open>process_listing\<close> and \<open>fill_fields\<close> for one listing. Proved: a batch is fresh and
    duplicate-free and marked before it is returned, \<open>Processed\<close> only grows, the
    fields are filled by position, processed listings are skipped unread, an
    unparsable link panics (nil \<open>*url.URL\<close>), a price error aborts the batch after
    marking the earlier products.
  \<^item> \<open>Batch_Spec\<close>: an abstract specification of one batch, \<open>first_fresh\<close> (the
    products whose identifier is neither processed nor repeated from an earlier listing,
    in page order, stated by index), and the functional refinement: on a page whose
    listings all describe a product, \<open>fetchMoreProducts\<close> returns exactly that list
    and marks exactly its identifiers. Also: an error after normal listings drops the
    batch while its identifiers stay marked.
  \<^item> \<open>Producer\<close>: the \<open>Scraper\<close> struct (the driver apart) as a record; the channel as a
    record (buffer, capacity, closed flag) with Go's rules in \<open>chan_close\<close>, \<open>chan_send\<close>,
    \<open>chan_recv\<close>; the goroutine of \<open>Start\<close> as \<open>loop_select\<close> (one pass through the
    \<open>select\<close>) and \<open>goroutine_step\<close> (that pass, or one send of the current batch); a
    world (scraper, goroutine state, context, what the consumer received, and as ghost
    state the batches fetched) stepped by \<open>world_step\<close> over the events \<open>Cancel\<close>,
    \<open>Receive\<close> (the consumer's \<open><-scraper.Products\<close>) and \<open>Step pg\<close> (the goroutine
    moves, the driver showing page \<open>pg\<close>); \<open>reachable s\<close> is the inductive set of
    worlds of every interleaving from \<open>start_world s\<close>. Invariants by rule induction,
    each from a lemma about one event: the control invariant \<open>inv_ctl\<close> (a closed
    channel means a cancelled context and a goroutine about to close again or already
    panicked; a returned goroutine left the channel open; no send on a closed channel),
    the products in flight are the concatenation of the fetched batches, they have
    distinct identifiers all marked in \<open>Processed\<close>, and the buffer stays within the
    capacity (a lemma used for the unbuffered channel). Properties: no duplicate
    delivery over any run, delivery in fetch order, marking before delivery; a closed
    channel means the goroutine has panicked or panics at its next step (the double
    close after cancellation), reached within \<open>length ps + 2\<close> events of the goroutine
    and the consumer from any cancelled world with \<open>ps\<close> products left to send; no
    fetch and no change of \<open>Processed\<close> after cancellation; no send on a closed channel;
    the consumer blocked forever after a fetch error.
  \<^item> \<open>Pipeline\<close>: the abstract contract of the stream (\<open>spec_step\<close>: fresh distinct
    batches while running, in-order delivery, a stop that may mark identifiers it never
    produces) and the simulation proof that the goroutine, the channel and the consumer
    refine it under \<open>abs_world\<close>, one lemma per kind of event; the contract's own
    invariant then gives distinct, seen products on the implementation.
  \<^item> \<open>Product_Wf\<close>: well-formedness of a \<open>Product\<close> (a currency without digits, a zero
    price with an empty currency), kept by every constructor and true of every product in
    flight in every run.
  \<^item> \<open>Blocking\<close>: a goroutine blocked on a send stays blocked through cancellations and
    scheduling steps, with the channel open: the leak when the consumer stops reading.
  \<^item> \<open>Session\<close>: the driver's answers as a record \<open>driver_env\<close>; \<open>waitForElement\<close> as the
    \<^theory_text>\<open>function\<close> \<open>wait_loop\<close> on a millisecond clock (each poll costs the driver's
    answer time plus the 500 ms sleep), its termination proved by the measure of the
    time left, and \<open>poll_times\<close> the instants it polls at;
    \<open>handleCookiesAndDialogue\<close> and \<open>NewInstance\<close> as their sequences of driver calls
    with every error return. Property: the wait returns the element exactly when a
    poll sees it and polls at most once per 500 ms.
  \<^item> This theory: the composition of the batch refinement with the goroutine and the
    unbuffered channel of \<open>NewInstance\<close> (one cycle of the loop hands the consumer
    exactly \<open>first_fresh\<close> of the page), on the listing cards of the specification's
    extractor scenario as its example.

  \<^bold>\<open>Bounds and clocks.\<close> \<open>uint64\<close> is \<open>64 word\<close>, so the overflow tests of
  \<open>ParseUint\<close> are the word comparisons of the code. The clock of \<open>waitForElement\<close> is
  an input (\<open>clock_start\<close>, \<open>poll_cost\<close>): no bound is assumed on the driver's answer
  time, and the loop ends because every poll advances the clock by at least 500 ms.
  Runs of \<open>Start\<close> are finite prefixes of the goroutine's infinite loop: the invariants
  hold after any number of events.

  \<^bold>\<open>Plan for later sittings.\<close> The error refinement of \<open>fetchMoreProducts\<close> for every
  kind of failing listing (the prefix of \<open>first_fresh\<close> that is marked); \<open>RawPath\<close> of
  \<open>url.URL\<close>; the consumer's view after a close (end of stream after draining the
  buffer) for a buffered channel.

  \<^bold>\<open>Not modelled.\<close> The selenium library and the browser (their answers are inputs of
  the model), logging, the test harness \<open>src/scraper_test.go\<close> apart from its receive
  (it drives a live chromedriver). \<open>strconv.ParseUint\<close> and \<open>net/url.Parse\<close> are library
  code outside the repository, modelled from their algorithms. The loop of \<open>Start\<close> has no
  clock in the model (only \<open>waitForElement\<close> has one), so how often it polls the driver,
  for instance on empty pages, is not a theorem of the model.
\<close>

text \<open>The listing cards of the specification's extractor scenario, as the driver would
  show them: the same listing under two query strings.\<close>

definition spec_listing_feed :: listing_elem where
  "spec_listing_feed = \<lparr>href_attr = Inr ''https://example.com/marketplace/item/42?ref=feed'', item_container = Inr [Inr ''$50'', Inr ''Bike'', Inr ''Downtown'']\<rparr>"

definition spec_listing_other :: listing_elem where
  "spec_listing_other = \<lparr>href_attr = Inr ''https://example.com/marketplace/item/42?ref=other'', item_container = Inr [Inr ''$60'', Inr ''Bike'']\<rparr>"

lemma handover_run:
  "gor w = Looping ps \<Longrightarrow> buf (Products (scr w)) = [] \<Longrightarrow> chan_cap (Products (scr w)) = 0
   \<Longrightarrow> \<not> closed (Products (scr w))
   \<Longrightarrow> \<exists>w'. run w (replicate (length ps) Receive) = Some w' \<and> received w' = received w @ ps
        \<and> gor w' = Looping [] \<and> Products (scr w') = Products (scr w)
        \<and> Processed (scr w') = Processed (scr w) \<and> ctx_done w' = ctx_done w"
proof (induction ps arbitrary: w)
  case Nil
  then show ?case by simp
next
  case (Cons p ps)
  let ?w1 = "w\<lparr>scr := (scr w)\<lparr>Products := Products (scr w)\<rparr>, received := received w @ [p],
               gor := Looping ps\<rparr>"
  have step: "world_step w Receive = Some ?w1"
    using Cons.prems by (simp add: consumer_receive_def chan_recv_def blocked_sender_def Let_def)
  have "gor ?w1 = Looping ps" "buf (Products (scr ?w1)) = []" "chan_cap (Products (scr ?w1)) = 0"
    "\<not> closed (Products (scr ?w1))" using Cons.prems by simp_all
  from Cons.IH [OF this] obtain w' where "run ?w1 (replicate (length ps) Receive) = Some w'"
    "received w' = received ?w1 @ ps" "gor w' = Looping []" "Products (scr w') = Products (scr ?w1)"
    "Processed (scr w') = Processed (scr ?w1)" "ctx_done w' = ctx_done ?w1" by blast
  with step show ?case by (intro exI [of _ w']) simp
qed

text \<open>C7: One cycle of the loop delivers exactly the specified batch: from the \<open>select\<close>
  of \<open>Start\<close> on the unbuffered channel of \<open>NewInstance\<close>, with the context live and
  a page whose listings all describe a product, one step of the goroutine and one
  receive per product give the consumer exactly \<open>first_fresh\<close> of the page, in order,
  leave the goroutine at the \<open>select\<close> again and mark exactly those identifiers.\<close>

theorem start_cycle_delivers_batch:
  assumes "gor w = Looping []" and "\<not> ctx_done w" and "buf (Products (scr w)) = []"
    and "chan_cap (Products (scr w)) = 0" and "\<not> closed (Products (scr w))"
    and "list_all (\<lambda>v. listing_product v \<noteq> None) ls"
  shows "\<exists>w'. run w (Step (Inr ls) # replicate (length (first_fresh (Processed (scr w))
                  (map (the \<circ> listing_product) ls))) Receive) = Some w'
           \<and> received w' = received w @ first_fresh (Processed (scr w)) (map (the \<circ> listing_product) ls)
           \<and> gor w' = Looping []
           \<and> Processed (scr w') = mark_all (Processed (scr w))
                                   (first_fresh (Processed (scr w)) (map (the \<circ> listing_product) ls))"
proof -
  let ?B = "first_fresh (Processed (scr w)) (map (the \<circ> listing_product) ls)"
  let ?m = "mark_all (Processed (scr w)) ?B"
  have f: "fetchMoreProducts (Inr ls) (Processed (scr w)) = (FetchOk ?B, ?m)"
    using fetch_loop_spec [OF assms(6), of "Processed (scr w)" "[]"] by (simp add: fetchMoreProducts_def)
  let ?w1 = "w\<lparr>gor := Looping ?B, scr := (scr w)\<lparr>Processed := ?m\<rparr>,
               fetched := fetched w @ (if ?B = [] then [] else [?B])\<rparr>"
  have st: "world_step w (Step (Inr ls)) = Some ?w1"
    using assms(1-3) f by (simp add: loop_select_def)
  have "gor ?w1 = Looping ?B" "buf (Products (scr ?w1)) = []" "chan_cap (Products (scr ?w1)) = 0"
    "\<not> closed (Products (scr ?w1))" using assms(3-5) by simp_all
  from handover_run [OF this] obtain w' where "run ?w1 (replicate (length ?B) Receive) = Some w'"
    "received w' = received ?w1 @ ?B" "gor w' = Looping []" "Processed (scr w') = Processed (scr ?w1)"
    by blast
  with st show ?thesis by (intro exI [of _ w']) simp
qed

theorem start_cycle_delivers_batch_witness:
  "(\<exists>w'. run (start_world \<lparr>Processed = Map.empty, Products = \<lparr>buf = [], chan_cap = 0, closed = False\<rparr>\<rparr>) (Step (Inr [spec_listing_feed, spec_listing_other]) # replicate (length (first_fresh Map.empty (map (the \<circ> listing_product) [spec_listing_feed, spec_listing_other]))) Receive) = Some w'
      \<and> received w' = received (start_world \<lparr>Processed = Map.empty, Products = \<lparr>buf = [], chan_cap = 0, closed = False\<rparr>\<rparr>) @ (first_fresh Map.empty (map (the \<circ> listing_product) [spec_listing_feed, spec_listing_other]))
      \<and> gor w' = Looping []
      \<and> Processed (scr w') = mark_all Map.empty (first_fresh Map.empty (map (the \<circ> listing_product) [spec_listing_feed, spec_listing_other])))
   \<and> length (first_fresh Map.empty (map (the \<circ> listing_product) [spec_listing_feed, spec_listing_other])) = 1"
proof -
  have h: "gor (start_world \<lparr>Processed = Map.empty, Products = \<lparr>buf = [], chan_cap = 0, closed = False\<rparr>\<rparr>) = Looping []" "\<not> ctx_done (start_world \<lparr>Processed = Map.empty, Products = \<lparr>buf = [], chan_cap = 0, closed = False\<rparr>\<rparr>)"
    "buf (Products (scr (start_world \<lparr>Processed = Map.empty, Products = \<lparr>buf = [], chan_cap = 0, closed = False\<rparr>\<rparr>))) = []" "chan_cap (Products (scr (start_world \<lparr>Processed = Map.empty, Products = \<lparr>buf = [], chan_cap = 0, closed = False\<rparr>\<rparr>))) = 0"
    "\<not> closed (Products (scr (start_world \<lparr>Processed = Map.empty, Products = \<lparr>buf = [], chan_cap = 0, closed = False\<rparr>\<rparr>)))"
    "list_all (\<lambda>v. listing_product v \<noteq> None) [spec_listing_feed, spec_listing_other]"
    by (simp_all add: go_defs spec_listing_feed_def spec_listing_other_def word_le_nat_alt word_less_nat_alt)
  have n: "length (first_fresh Map.empty (map (the \<circ> listing_product) [spec_listing_feed, spec_listing_other])) = 1"
    by (simp add: go_defs spec_listing_feed_def spec_listing_other_def word_le_nat_alt word_less_nat_alt)
  have pm: "Processed (scr (start_world \<lparr>Processed = Map.empty, Products = \<lparr>buf = [], chan_cap = 0, closed = False\<rparr>\<rparr>)) = Map.empty" by (simp add: start_world_def)
  from start_cycle_delivers_batch [OF h] n show ?thesis unfolding pm by (rule conjI)
qed

end
